theory Spec2Isabelle
  imports Complex_Main "HOL-Library.Sublist"
begin

section \<open>Strings\<close>

text \<open>
  Python strings are modelled as \<^typ>\<open>string\<close>; a character stands for a code point
  below 256. The helpers below are the \<^verbatim>\<open>str\<close> methods the sources call.
\<close>

definition is_space :: "char \<Rightarrow> bool" where
  "is_space c = (c \<in> set [CHR 0x09, CHR 0x0A, CHR 0x0B, CHR 0x0C, CHR 0x0D,
     CHR 0x1C, CHR 0x1D, CHR 0x1E, CHR 0x1F, CHR 0x20, CHR 0x85, CHR 0xA0])"

definition py_lstrip :: "string \<Rightarrow> string" where
  "py_lstrip s = dropWhile is_space s"

definition py_rstrip :: "string \<Rightarrow> string" where
  "py_rstrip s = rev (dropWhile is_space (rev s))"

definition py_strip :: "string \<Rightarrow> string" where
  "py_strip s = py_rstrip (py_lstrip s)"

fun py_join :: "string \<Rightarrow> string list \<Rightarrow> string" where
  "py_join sep [] = []"
| "py_join sep [p] = p"
| "py_join sep (p # q # ps) = p @ sep @ py_join sep (q # ps)"

text \<open>
  \<^verbatim>\<open>s.split(sep)\<close> for a non-empty separator: the text is cut at each occurrence of
  \<open>sep\<close>, scanning from the left; \<open>cur\<close> is the piece being read. The result always has
  at least one piece. (Python raises on an empty separator; the sources only pass
  non-empty ones.)
\<close>

fun split_from :: "string \<Rightarrow> string \<Rightarrow> string \<Rightarrow> string list" where
  "split_from sep cur [] = [cur]"
| "split_from sep cur (c # cs) =
     (if sep \<noteq> [] \<and> prefix sep (c # cs)
      then cur # split_from sep [] (drop (length sep - 1) cs)
      else split_from sep (cur @ [c]) cs)"

definition py_split :: "string \<Rightarrow> string \<Rightarrow> string list" where
  "py_split s sep = split_from sep [] s"

text \<open>
  \<^verbatim>\<open>xs[i:j]\<close> with Python's reading of negative and out-of-range bounds.
\<close>

definition slice_bound :: "int \<Rightarrow> int \<Rightarrow> int" where
  "slice_bound n i = (if i < 0 then max 0 (n + i) else min i n)"

definition py_slice :: "'a list \<Rightarrow> int \<Rightarrow> int \<Rightarrow> 'a list" where
  "py_slice xs i j =
     (let n = int (length xs); a = slice_bound n i; b = slice_bound n j
      in take (nat (b - a)) (drop (nat a) xs))"

section \<open>Exceptions\<close>

text \<open>An exception is a value; \<open>Error msg\<close> carries its message.\<close>

datatype error = Error string

section \<open>The chunker (parse\_and\_chunk.py)\<close>

text \<open>
  The tokenizer is tiktoken's \<^verbatim>\<open>cl100k_base\<close> encoding, an external library: it enters
  as a value with the two methods the chunker calls. \<^verbatim>\<open>encode\<close> is called with the
  library's defaults, under which it raises on a text that holds a special token;
  \<^verbatim>\<open>decode\<close> replaces what it cannot decode and does not raise.
\<close>

record 'tok encoding =
  encode :: "string \<Rightarrow> error + 'tok list"
  decode :: "'tok list \<Rightarrow> string"

definition get_tokens :: "'tok encoding \<Rightarrow> string \<Rightarrow> error + 'tok list" where
  "get_tokens E text = encode E text"

definition separators :: "string list" where
  "separators = [''\<newline>\<newline>'', ''\<newline>'', '' '']"

text \<open>
  The hard split by token index (the \<^verbatim>\<open>while\<close> loop of the base case). The loop
  does not terminate when the step \<open>S - Ov\<close> is not positive; not returning is \<open>None\<close>.
\<close>

partial_function (option) hard_split_loop ::
  "'tok encoding \<Rightarrow> 'tok list \<Rightarrow> int \<Rightarrow> int \<Rightarrow> int \<Rightarrow> string list \<Rightarrow> string list option" where
  "hard_split_loop E tokens S Ov start_token_idx chunked_parts =
     (if start_token_idx < int (length tokens)
      then hard_split_loop E tokens S Ov (start_token_idx + (S - Ov))
             (chunked_parts @
              [decode E (py_slice tokens start_token_idx
                           (min (start_token_idx + S) (int (length tokens))))])
      else Some chunked_parts)"

declare hard_split_loop.simps [code]

text \<open>The state of the greedy reassembly loop.\<close>

record split_state =
  temp_chunks :: "string list"
  current_chunk_parts :: "string list"
  current_chunk_token_count :: int

definition seal :: "string \<Rightarrow> split_state \<Rightarrow> string list" where
  "seal current_separator st =
     (if current_chunk_parts st \<noteq> []
      then temp_chunks st @ [py_strip (py_join current_separator (current_chunk_parts st))]
      else temp_chunks st)"

text \<open>
  The overlap drawn from the last sealed chunk: its last \<open>Ov\<close> tokens (all of them when
  it has fewer), decoded. Tokenizing the sealed chunk may raise.
\<close>

definition overlap_text :: "'tok encoding \<Rightarrow> int \<Rightarrow> string \<Rightarrow> error + string" where
  "overlap_text E Ov last_chunk_text =
     (case get_tokens E last_chunk_text of
        Inl e \<Rightarrow> Inl e
      | Inr last_chunk_tokens \<Rightarrow>
          (let overlap_start_index = max 0 (int (length last_chunk_tokens) - Ov);
               overlap_tokens = drop (nat overlap_start_index) last_chunk_tokens
           in Inr (decode E overlap_tokens)))"

text \<open>
  The token cost of the separator, charged only when the chunk under construction already
  has a part.
\<close>

definition separator_tokens_len :: "'tok encoding \<Rightarrow> string \<Rightarrow> split_state \<Rightarrow> error + int" where
  "separator_tokens_len E current_separator st =
     (if current_separator \<noteq> [] \<and> current_chunk_parts st \<noteq> []
      then (case get_tokens E current_separator of
              Inl e \<Rightarrow> Inl e
            | Inr separator_tokens \<Rightarrow> Inr (int (length separator_tokens)))
      else Inr 0)"

text \<open>
  The state after sealing: the chunk under construction is empty, or holds the overlap
  text when the overlap is positive and a chunk has been sealed.
\<close>

definition start_new_chunk :: "'tok encoding \<Rightarrow> int \<Rightarrow> string list \<Rightarrow> error + split_state" where
  "start_new_chunk E Ov temp =
     (if Ov > 0 \<and> temp \<noteq> []
      then
        (case overlap_text E Ov (last temp) of
           Inl e \<Rightarrow> Inl e
         | Inr overlap \<Rightarrow>
             (case get_tokens E overlap of
                Inl e \<Rightarrow> Inl e
              | Inr overlap_tokens \<Rightarrow>
                  Inr \<lparr>temp_chunks = temp, current_chunk_parts = [overlap],
                       current_chunk_token_count = int (length overlap_tokens)\<rparr>))
      else Inr \<lparr>temp_chunks = temp, current_chunk_parts = [],
                current_chunk_token_count = 0\<rparr>)"

text \<open>The body of the inner \<^verbatim>\<open>for sub_part in sub_parts_from_recursion\<close> loop.\<close>

definition add_sub_part ::
  "'tok encoding \<Rightarrow> int \<Rightarrow> int \<Rightarrow> string \<Rightarrow> string \<Rightarrow> split_state \<Rightarrow> error + split_state" where
  "add_sub_part E S Ov current_separator sub_part st =
     (case get_tokens E sub_part of
        Inl e \<Rightarrow> Inl e
      | Inr sub_part_tokens \<Rightarrow>
          (case separator_tokens_len E current_separator st of
             Inl e \<Rightarrow> Inl e
           | Inr sep_len \<Rightarrow>
               (case (if current_chunk_token_count st + int (length sub_part_tokens) + sep_len > S
                      then start_new_chunk E Ov (seal current_separator st)
                      else Inr st) of
                  Inl e \<Rightarrow> Inl e
                | Inr st1 \<Rightarrow>
                    Inr (st1\<lparr>current_chunk_parts := current_chunk_parts st1 @ [sub_part],
                             current_chunk_token_count :=
                               current_chunk_token_count st1 + int (length sub_part_tokens)\<rparr>))))"

text \<open>The inner loop: it stops at the first exception.\<close>

fun add_sub_parts ::
  "'tok encoding \<Rightarrow> int \<Rightarrow> int \<Rightarrow> string \<Rightarrow> string list \<Rightarrow> split_state \<Rightarrow> error + split_state" where
  "add_sub_parts E S Ov current_separator [] st = Inr st"
| "add_sub_parts E S Ov current_separator (sub_part # rest) st =
     (case add_sub_part E S Ov current_separator sub_part st of
        Inl e \<Rightarrow> Inl e
      | Inr st1 \<Rightarrow> add_sub_parts E S Ov current_separator rest st1)"

definition init_state :: split_state where
  "init_state = \<lparr>temp_chunks = [], current_chunk_parts = [], current_chunk_token_count = 0\<rparr>"

text \<open>
  A call of \<^verbatim>\<open>_recursive_split\<close> does not return (\<open>None\<close>), raises (\<open>Some (Inl e)\<close>)
  or returns its chunks (\<open>Some (Inr chunks)\<close>). The outer loop over the parts carries the
  state of the reassembly; once a part has raised or has not returned, no later part is
  looked at.
\<close>

function recursive_split ::
  "'tok encoding \<Rightarrow> int \<Rightarrow> int \<Rightarrow> string \<Rightarrow> nat \<Rightarrow> (error + string list) option" where
  "recursive_split E S Ov current_text separator_index =
     (case get_tokens E current_text of
        Inl e \<Rightarrow> Some (Inl e)
      | Inr tokens \<Rightarrow>
          if int (length tokens) \<le> S \<or> separator_index \<ge> length separators
          then
            (if int (length tokens) > S
             then map_option Inr (hard_split_loop E tokens S Ov 0 [])
             else Some (Inr [current_text]))
          else
            (case fold
                    (\<lambda>part acc.
                       case acc of
                         None \<Rightarrow> None
                       | Some (Inl e) \<Rightarrow> Some (Inl e)
                       | Some (Inr st) \<Rightarrow>
                           (case recursive_split E S Ov part (separator_index + 1) of
                              None \<Rightarrow> None
                            | Some (Inl e) \<Rightarrow> Some (Inl e)
                            | Some (Inr sub_parts_from_recursion) \<Rightarrow>
                                Some (add_sub_parts E S Ov (separators ! separator_index)
                                        sub_parts_from_recursion st)))
                    (py_split current_text (separators ! separator_index))
                    (Some (Inr init_state))
             of None \<Rightarrow> None
              | Some (Inl e) \<Rightarrow> Some (Inl e)
              | Some (Inr st) \<Rightarrow> Some (Inr (seal (separators ! separator_index) st))))"
  by pat_completeness auto
termination
  by (relation "measure (\<lambda>(E, S, Ov, t, i). length separators - i)") auto

definition split_text_into_chunks ::
  "'tok encoding \<Rightarrow> string \<Rightarrow> int \<Rightarrow> int \<Rightarrow> (error + string list) option" where
  "split_text_into_chunks E text chunk_size_tokens chunk_overlap_tokens =
     recursive_split E chunk_size_tokens chunk_overlap_tokens text 0"

text \<open>
  A small tokenizer in the manner of cl100k\_base, for running the chunker: it raises on a
  text that holds one of the encoding's special tokens; otherwise a paragraph break is
  one token, a space followed by a letter joins the letter's token, and any other
  character is a token of its own. On the texts used below (single letters, spaces,
  line breaks) it cuts where cl100k\_base cuts.
\<close>

definition special_tokens :: "string list" where
  "special_tokens = [''<|endoftext|>'', ''<|fim_prefix|>'', ''<|fim_middle|>'',
     ''<|fim_suffix|>'', ''<|endofprompt|>'']"

definition is_letter :: "char \<Rightarrow> bool" where
  "is_letter c =
     (let n = (of_char c :: nat) in (97 \<le> n \<and> n \<le> 122) \<or> (65 \<le> n \<and> n \<le> 90))"

fun demo_encode :: "string \<Rightarrow> string list" where
  "demo_encode [] = []"
| "demo_encode [c] = [[c]]"
| "demo_encode (c # d # cs) =
     (if c = CHR ''\<newline>'' \<and> d = CHR ''\<newline>'' then [c, d] # demo_encode cs
      else if c = CHR '' '' \<and> is_letter d then [c, d] # demo_encode cs
      else [c] # demo_encode (d # cs))"

definition demo_encoding :: "string encoding" where
  "demo_encoding =
     \<lparr>encode = (\<lambda>text. if list_ex (\<lambda>special. sublist special text) special_tokens
                         then Inl (Error ''ValueError'')
                         else Inr (demo_encode text)),
      decode = concat\<rparr>"

text \<open>
  What links a sealed chunk to its successor: the last \<open>Ov\<close> tokens of the sealed chunk,
  decoded and without their outer whitespace, start the successor. \<open>split_inv\<close> is the
  invariant of the reassembly loop for a positive overlap: the sealed chunks are linked
  in this way, and once a chunk has been sealed the chunk under construction starts with
  the overlap drawn from the last sealed one.
\<close>

definition overlap_ok :: "'tok encoding \<Rightarrow> int \<Rightarrow> string \<Rightarrow> string \<Rightarrow> bool" where
  "overlap_ok E Ov c d =
     (case get_tokens E c of
        Inl e \<Rightarrow> False
      | Inr tokens \<Rightarrow>
          prefix (py_strip (decode E (drop (length tokens - nat Ov) tokens))) d)"

definition split_inv :: "'tok encoding \<Rightarrow> int \<Rightarrow> split_state \<Rightarrow> bool" where
  "split_inv E Ov st =
     (successively (overlap_ok E Ov) (temp_chunks st)
      \<and> (temp_chunks st \<noteq> [] \<longrightarrow>
           current_chunk_parts st \<noteq> []
           \<and> overlap_text E Ov (last (temp_chunks st)) = Inr (hd (current_chunk_parts st))))"

section \<open>The retrieval store (embed\_and\_store.py)\<close>

text \<open>
  A chunk's metadata is the dictionary written by the chunking script, with its six
  keys; the field \<open>ctext\<close> is its key \<^verbatim>\<open>text\<close>. A \<^verbatim>\<open>chunk_id\<close> that is null is
  \<open>None\<close>.
\<close>

record chunk =
  ctext :: string
  company :: string
  year :: string
  source_doc :: string
  chunk_id :: "string option"
  page :: int

record 'd retrieved = chunk +
  distance :: 'd

text \<open>
  The embedding model and the vector index are external libraries. An embedding model is
  its \<^verbatim>\<open>encode\<close> method (a batch of texts to a batch of vectors, or an exception); an
  index is its \<^verbatim>\<open>search\<close> method (a batch of query vectors and \<open>k\<close> to the two arrays
  \<^verbatim>\<open>(distances, indices)\<close>, one row per query, or an exception).
\<close>

type_synonym 'v embedder = "string list \<Rightarrow> error + 'v list"

type_synonym ('v, 'd) flat_index = "'v list \<Rightarrow> int \<Rightarrow> error + ('d list list \<times> int list list)"

record ('v, 'd) rag_pipeline =
  model :: "'v embedder option"
  index :: "('v, 'd) flat_index option"
  chunks_metadata :: "chunk list"

definition py_getitem :: "'a list \<Rightarrow> nat \<Rightarrow> error + 'a" where
  "py_getitem xs i = (if i < length xs then Inr (xs ! i) else Inl (Error ''IndexError''))"

definition resolve :: "chunk \<Rightarrow> 'd \<Rightarrow> 'd retrieved" where
  "resolve c d = \<lparr>ctext = ctext c, company = company c, year = year c,
     source_doc = source_doc c, chunk_id = chunk_id c, page = page c, distance = d\<rparr>"

text \<open>The loop \<^verbatim>\<open>for i, idx in enumerate(indices[0])\<close> of \<^verbatim>\<open>retrieve_chunks\<close>.\<close>

fun retrieve_loop ::
  "chunk list \<Rightarrow> 'd list list \<Rightarrow> (nat \<times> int) list \<Rightarrow> 'd retrieved list \<Rightarrow> error + 'd retrieved list" where
  "retrieve_loop md distances [] retrieved_chunks = Inr retrieved_chunks"
| "retrieve_loop md distances ((i, idx) # rest) retrieved_chunks =
     (if 0 \<le> idx \<and> idx < int (length md)
      then
        (case py_getitem distances 0 of
           Inl e \<Rightarrow> Inl e
         | Inr row \<Rightarrow>
             (case py_getitem row i of
                Inl e \<Rightarrow> Inl e
              | Inr d \<Rightarrow>
                  retrieve_loop md distances rest
                    (retrieved_chunks @ [resolve (md ! nat idx) d])))
      else retrieve_loop md distances rest retrieved_chunks)"

text \<open>The body of the \<^verbatim>\<open>try\<close> block of \<^verbatim>\<open>retrieve_chunks\<close>.\<close>

definition retrieve_try ::
  "'v embedder \<Rightarrow> ('v, 'd) flat_index \<Rightarrow> chunk list \<Rightarrow> string \<Rightarrow> int \<Rightarrow> error + 'd retrieved list" where
  "retrieve_try enc ix md query_text k =
     (case enc [query_text] of
        Inl e \<Rightarrow> Inl e
      | Inr query_embedding \<Rightarrow>
          (case ix query_embedding k of
             Inl e \<Rightarrow> Inl e
           | Inr (distances, indices) \<Rightarrow>
               (case py_getitem indices 0 of
                  Inl e \<Rightarrow> Inl e
                | Inr row \<Rightarrow> retrieve_loop md distances (enumerate 0 row) [])))"

definition retrieve_chunks ::
  "('v, 'd) rag_pipeline \<Rightarrow> string \<Rightarrow> int \<Rightarrow> 'd retrieved list" where
  "retrieve_chunks rag query_text k =
     (case model rag of
        None \<Rightarrow> []
      | Some enc \<Rightarrow>
          (case index rag of
             None \<Rightarrow> []
           | Some ix \<Rightarrow>
               if chunks_metadata rag = [] then []
               else (case retrieve_try enc ix (chunks_metadata rag) query_text k of
                       Inl e \<Rightarrow> []
                     | Inr retrieved_chunks \<Rightarrow> retrieved_chunks)))"

text \<open>
  What the index library promises for one query row of a flat L2 search with \<open>k\<close>
  requested neighbours: one row of \<open>k\<close> distances in ascending order and one row of \<open>k\<close>
  labels, where a label is a position of the index or \<open>-1\<close> (padding when the index
  holds fewer than \<open>k\<close> vectors), and no position is returned twice.
\<close>

definition flat_search_contract :: "int \<Rightarrow> ('d::linorder) list list \<Rightarrow> int list list \<Rightarrow> bool" where
  "flat_search_contract k distances indices =
     (case (distances, indices) of
        ([drow], [irow]) \<Rightarrow>
          length drow = nat k \<and> length irow = nat k \<and> sorted drow
          \<and> distinct (filter (\<lambda>idx. 0 \<le> idx) irow)
      | _ \<Rightarrow> False)"

text \<open>
  The two persisted artifacts. A file is absent (\<open>None\<close>), or reading it raises, or
  reading it gives its content. The content of the metadata file is a list of chunk
  dictionaries, as the chunking script writes it; a metadata file that holds other valid
  JSON is outside the model. The library calls of the rebuild enter as functions:
  creating the empty index for a batch of embeddings, adding the batch, and writing the
  index (which gives the new state of the index file).
\<close>

record ('v, 'd) files =
  faiss_index_file :: "(error + ('v, 'd) flat_index) option"
  chunk_metadata_file :: "(error + chunk list) option"

record ('v, 'd) faiss =
  IndexFlatL2 :: "'v list \<Rightarrow> error + ('v, 'd) flat_index"
  index_add :: "('v, 'd) flat_index \<Rightarrow> 'v list \<Rightarrow> error + ('v, 'd) flat_index"
  write_index :: "('v, 'd) flat_index \<Rightarrow> error + (error + ('v, 'd) flat_index)"

definition load_chunks_metadata ::
  "('v, 'd) files \<Rightarrow> ('v, 'd) rag_pipeline \<Rightarrow> bool \<times> ('v, 'd) rag_pipeline" where
  "load_chunks_metadata fs rag =
     (case chunk_metadata_file fs of
        None \<Rightarrow> (False, rag)
      | Some (Inl e) \<Rightarrow> (False, rag)
      | Some (Inr loaded) \<Rightarrow> (True, rag\<lparr>chunks_metadata := loaded\<rparr>))"

definition create_and_save_embeddings_and_index ::
  "('v, 'd) faiss \<Rightarrow> ('v, 'd) files \<Rightarrow> ('v, 'd) rag_pipeline
     \<Rightarrow> bool \<times> ('v, 'd) rag_pipeline \<times> ('v, 'd) files" where
  "create_and_save_embeddings_and_index F fs rag =
     (case model rag of
        None \<Rightarrow> (False, rag, fs)
      | Some enc \<Rightarrow>
          (case load_chunks_metadata fs rag of
             (False, rag1) \<Rightarrow> (False, rag1, fs)
           | (True, rag1) \<Rightarrow>
               if chunks_metadata rag1 = [] then (False, rag1, fs)
               else
                 (case enc (map ctext (chunks_metadata rag1)) of
                    Inl e \<Rightarrow> (False, rag1, fs)
                  | Inr embeddings \<Rightarrow>
                      (case IndexFlatL2 F embeddings of
                         Inl e \<Rightarrow> (False, rag1, fs)
                       | Inr empty_index \<Rightarrow>
                           (case index_add F empty_index embeddings of
                              Inl e \<Rightarrow> (False, rag1\<lparr>index := Some empty_index\<rparr>, fs)
                            | Inr ix \<Rightarrow>
                                (case write_index F ix of
                                   Inl e \<Rightarrow> (False, rag1\<lparr>index := Some ix\<rparr>, fs)
                                 | Inr written \<Rightarrow>
                                     (True, rag1\<lparr>index := Some ix\<rparr>,
                                      fs\<lparr>faiss_index_file := Some written\<rparr>)))))))"

definition load_or_create_index ::
  "('v, 'd) faiss \<Rightarrow> ('v, 'd) files \<Rightarrow> ('v, 'd) rag_pipeline
     \<Rightarrow> bool \<times> ('v, 'd) rag_pipeline \<times> ('v, 'd) files" where
  "load_or_create_index F fs rag =
     (if faiss_index_file fs \<noteq> None \<and> chunk_metadata_file fs \<noteq> None
      then
        (case faiss_index_file fs of
           Some (Inr ix) \<Rightarrow>
             (True, snd (load_chunks_metadata fs (rag\<lparr>index := Some ix\<rparr>)), fs)
         | _ \<Rightarrow> create_and_save_embeddings_and_index F fs rag)
      else create_and_save_embeddings_and_index F fs rag)"

section \<open>The query agent (query\_agent.py)\<close>

definition char_lower :: "char \<Rightarrow> char" where
  "char_lower c =
     (let n = (of_char c :: nat)
      in if (65 \<le> n \<and> n \<le> 90) \<or> (192 \<le> n \<and> n \<le> 222 \<and> n \<noteq> 215)
         then char_of (n + 32) else c)"

definition py_lower :: "string \<Rightarrow> string" where
  "py_lower s = map char_lower s"

definition digit_char :: "nat \<Rightarrow> char" where
  "digit_char d = char_of (48 + d)"

fun str_nat :: "nat \<Rightarrow> string" where
  "str_nat n = (if n < 10 then [digit_char n] else str_nat (n div 10) @ [digit_char (n mod 10)])"

definition str_int :: "int \<Rightarrow> string" where
  "str_int i = (if i < 0 then ''-'' @ str_nat (nat (- i)) else str_nat (nat i))"

text \<open>\<^verbatim>\<open>s.split(sep, 1)\<close>: cut at the first occurrence of \<open>sep\<close> only.\<close>

fun split_once_from :: "string \<Rightarrow> string \<Rightarrow> string \<Rightarrow> string list" where
  "split_once_from sep cur [] = [cur]"
| "split_once_from sep cur (c # cs) =
     (if sep \<noteq> [] \<and> prefix sep (c # cs)
      then [cur, drop (length sep) (c # cs)]
      else split_once_from sep (cur @ [c]) cs)"

definition py_split_once :: "string \<Rightarrow> string \<Rightarrow> string list" where
  "py_split_once s sep = split_once_from sep [] s"

text \<open>
  The generation capability is an external service: given the calls made so far, a
  prompt and a temperature it raises or answers with a text. The list of calls made is
  threaded through the agent's functions, so that the calls a function makes can be
  counted.
\<close>

type_synonym llm_call = "string \<times> rat"

type_synonym llm = "llm_call list \<Rightarrow> string \<Rightarrow> rat \<Rightarrow> error + string"

definition call_llm :: "llm \<Rightarrow> llm_call list \<Rightarrow> string \<Rightarrow> rat \<Rightarrow> string \<times> llm_call list" where
  "call_llm generate calls prompt temperature =
     (case generate calls prompt temperature of
        Inr response_text \<Rightarrow> (py_strip response_text, calls @ [(prompt, temperature)])
      | Inl (Error e) \<Rightarrow> (''LLM error: '' @ e, calls @ [(prompt, temperature)]))"

definition dquote :: string where
  "dquote = [CHR 0x22]"

definition decomposition_prompt :: "string \<Rightarrow> string" where
  "decomposition_prompt query_text = concat
    [''\<newline>'',
     ''        You are an expert financial analyst. A user is asking a complex question about financial filings.\<newline>'',
     ''        Your task is to break down the following complex question into a list of concise, independent sub-queries.\<newline>'',
     ''        Each sub-query should be directly answerable by retrieving information from a financial 10-K filing.\<newline>'',
     ''        Focus on specific metrics, companies, and years.\<newline>'',
     ''\<newline>'',
     ''        Example:\<newline>'',
     ''        Question: '', dquote, ''Compare cloud revenue growth rates across all three companies from 2022 to 2023'', dquote, ''\<newline>'',
     ''        Sub-queries:\<newline>'',
     ''        - Microsoft cloud revenue 2022\<newline>'',
     ''        - Microsoft cloud revenue 2023\<newline>'',
     ''        - Google cloud revenue 2022\<newline>'',
     ''        - Google cloud revenue 2023\<newline>'',
     ''        - NVIDIA data center revenue 2022\<newline>'',
     ''        - NVIDIA data center revenue 2023 (NVIDIA's equivalent to cloud revenue is typically Data Center)\<newline>'',
     ''\<newline>'',
     ''        Example:\<newline>'',
     ''        Question: '', dquote, ''Which company had the highest operating margin in 2023?'', dquote, ''\<newline>'',
     ''        Sub-queries:\<newline>'',
     ''        - Microsoft operating margin 2023\<newline>'',
     ''        - Google operating margin 2023\<newline>'',
     ''        - NVIDIA operating margin 2023\<newline>'',
     ''\<newline>'',
     ''        Example:\<newline>'',
     ''        Question: '', dquote, ''How much did NVIDIA's data center revenue grow from 2022 to 2023?'', dquote, ''\<newline>'',
     ''        Sub-queries:\<newline>'',
     ''        - NVIDIA data center revenue 2022\<newline>'',
     ''        - NVIDIA data center revenue 2023\<newline>'',
     ''\<newline>'',
     ''        Your response should be ONLY a comma-separated list of sub-queries. Do not include any other text or formatting.\<newline>'',
     ''\<newline>'',
     ''        Question: '', dquote, query_text, dquote, ''\<newline>'',
     ''        Sub-queries:\<newline>'',
     ''        '']"

definition strip_bullet :: "string \<Rightarrow> string" where
  "strip_bullet q = (if prefix ''- '' q then drop 2 q else q)"

definition decompose_query :: "llm \<Rightarrow> llm_call list \<Rightarrow> string \<Rightarrow> string list \<times> llm_call list" where
  "decompose_query generate calls query_text =
     (case call_llm generate calls (decomposition_prompt query_text) 0 of
        (response, calls1) \<Rightarrow>
          (map (\<lambda>q. py_strip (strip_bullet q))
             (map py_strip (filter (\<lambda>q. py_strip q \<noteq> []) (py_split response '',''))),
           calls1))"

record source_entry =
  s_company :: string
  s_year :: string
  excerpt :: string
  s_page :: int
  s_source_doc :: string

definition context_entry :: "nat \<Rightarrow> 'd retrieved \<Rightarrow> string" where
  "context_entry i data =
     ''--- Source '' @ str_nat (i + 1) @ '' ('' @ company data @ '' '' @ year data
       @ '' - Page '' @ str_int (page data) @ '') ---\<newline>''
       @ ctext data @ ''\<newline>\<newline>''"

definition source_for_output :: "'d retrieved \<Rightarrow> source_entry" where
  "source_for_output data =
     \<lparr>s_company = company data, s_year = year data,
      excerpt = take 200 (ctext data) @ ''...'',
      s_page = page data, s_source_doc = source_doc data\<rparr>"

definition synthesis_prompt :: "string \<Rightarrow> string list \<Rightarrow> string \<Rightarrow> string" where
  "synthesis_prompt original_query sub_queries context_str = concat
    [''\<newline>'',
     ''        You are a financial analysis AI. Based on the following information retrieved from financial filings,\<newline>'',
     ''        answer the original user query comprehensively and concisely.\<newline>'',
     ''        If the query involves calculations (e.g., growth rates, comparisons), perform them.\<newline>'',
     ''        Cite the company and year from which the information was sourced where appropriate.\<newline>'',
     ''\<newline>'',
     ''        Original Query: '', dquote, original_query, dquote, ''\<newline>'',
     ''        Sub-queries performed: '', py_join '', '' sub_queries, ''\<newline>'',
     ''\<newline>'',
     ''        Retrieved Context (multiple sources may be provided):\<newline>'',
     ''        '', context_str, ''\<newline>'',
     ''\<newline>'',
     ''        Please provide a direct answer, followed by your reasoning.\<newline>'',
     ''        Answer:\<newline>'',
     ''        '']"

definition synthesize_answer ::
  "llm \<Rightarrow> llm_call list \<Rightarrow> string \<Rightarrow> 'd retrieved list \<Rightarrow> string list
     \<Rightarrow> (string \<times> string \<times> source_entry list) \<times> llm_call list" where
  "synthesize_answer generate calls original_query retrieved_data sub_queries =
     (if retrieved_data = []
      then ((''Could not find relevant information to answer the query.'',
             ''No relevant data retrieved.'', []), calls)
      else
        (let context_str = concat (map (\<lambda>(i, data). context_entry i data) (enumerate 0 retrieved_data));
             sources_for_output = map source_for_output retrieved_data;
             reasoning_str =
               (if length sub_queries > 1
                then ''Performed query decomposition, retrieved data for multiple sub-queries, and synthesized the results.''
                else ''Retrieved relevant information and synthesized the answer.'')
         in case call_llm generate calls
                   (synthesis_prompt original_query sub_queries context_str) (1 / 10) of
              (raw_answer_response, calls1) \<Rightarrow>
                (let answer_parts = py_split_once raw_answer_response ''Reasoning:'';
                     answer_text = py_strip (hd answer_parts);
                     final_reasoning = reasoning_str @ ''\<newline>'' @
                       (if length answer_parts > 1 then py_strip (answer_parts ! 1)
                        else ''No specific reasoning provided by LLM, relying on agent's default reasoning.'')
                 in ((answer_text, final_reasoning, sources_for_output), calls1))))"

definition decomposition_keywords :: "string list" where
  "decomposition_keywords = [''compare'', ''highest'', ''lowest'', ''growth from'', ''each company'', ''across all'']"

definition complex_query :: "string \<Rightarrow> bool" where
  "complex_query query_text = list_ex (\<lambda>keyword. sublist keyword (py_lower query_text)) decomposition_keywords"

text \<open>The retrieval loop of \<^verbatim>\<open>answer_query\<close>: five chunks for each sub-query, accumulated.\<close>

definition retrieve_all :: "('v, 'd) rag_pipeline \<Rightarrow> string list \<Rightarrow> 'd retrieved list" where
  "retrieve_all rag sub_queries =
     fold (\<lambda>sub_q all_retrieved_chunks. all_retrieved_chunks @ retrieve_chunks rag sub_q 5)
       sub_queries []"

text \<open>
  The deduplication loop of \<^verbatim>\<open>answer_query\<close>. The dictionary keeps its keys in the
  order they were first stored: it is a list of pairs.
\<close>

definition chunk_key :: "'d retrieved \<Rightarrow> string" where
  "chunk_key c =
     (case chunk_id c of
        Some cid \<Rightarrow> if cid \<noteq> [] then cid else ctext c @ source_doc c
      | None \<Rightarrow> ctext c @ source_doc c)"

definition add_unique :: "'d retrieved \<Rightarrow> (string \<times> 'd retrieved) list \<Rightarrow> (string \<times> 'd retrieved) list" where
  "add_unique c unique_retrieved_chunks_data =
     (if chunk_key c \<in> set (map fst unique_retrieved_chunks_data)
      then unique_retrieved_chunks_data
      else unique_retrieved_chunks_data @ [(chunk_key c, c)])"

definition unique_chunks :: "'d retrieved list \<Rightarrow> 'd retrieved list" where
  "unique_chunks all_retrieved_chunks = map snd (fold add_unique all_retrieved_chunks [])"

record agent_output =
  query :: string
  answer :: string
  reasoning :: string
  sub_queries :: "string list"
  sources :: "source_entry list"

text \<open>
  The first stage of \<^verbatim>\<open>answer_query\<close>: the keyword gate and the decomposition, with
  the fall-back to the question itself.
\<close>

definition plan_sub_queries :: "llm \<Rightarrow> llm_call list \<Rightarrow> string \<Rightarrow> string list \<times> llm_call list" where
  "plan_sub_queries generate calls user_query =
     (if complex_query user_query
      then
        (case decompose_query generate calls user_query of
           (decomposed_queries, calls1) \<Rightarrow>
             (if decomposed_queries \<noteq> [] then decomposed_queries else [user_query], calls1))
      else ([user_query], calls))"

text \<open>
  The company and the year that the source extracts from each sub-query, and the set of
  source documents it collects, only feed log lines and are left out.
\<close>

definition answer_query ::
  "llm \<Rightarrow> ('v, 'd) rag_pipeline \<Rightarrow> llm_call list \<Rightarrow> string \<Rightarrow> agent_output \<times> llm_call list" where
  "answer_query generate rag calls user_query =
     (case plan_sub_queries generate calls user_query of
        (subs, calls1) \<Rightarrow>
          (let all_retrieved_chunks = retrieve_all rag subs;
               final_retrieved_chunks = unique_chunks all_retrieved_chunks
           in case synthesize_answer generate calls1 user_query final_retrieved_chunks subs of
                ((final_answer, final_reasoning, srcs), calls2) \<Rightarrow>
                  (\<lparr>query = user_query, answer = final_answer, reasoning = final_reasoning,
                    sub_queries = subs, sources = srcs\<rparr>, calls2)))"

section \<open>A small pipeline to run the functions on\<close>

text \<open>
  Three passages of one filing; an embedding model that never fails (a text is its own
  vector); an index over the three passages that answers every query with the positions
  2, 0, 1 at distances 1, 2, 3, pads with \<open>-1\<close> beyond them, and rejects \<open>k \<le> 0\<close> as the
  library does; a generation service with one fixed answer.
\<close>

definition demo_chunk :: "string \<Rightarrow> nat \<Rightarrow> chunk" where
  "demo_chunk t i =
     \<lparr>ctext = t, company = ''GOOGL'', year = ''2023'', source_doc = ''GOOGL_2023.htm'',
      chunk_id = Some (''GOOGL_2023_chunk_000'' @ str_nat i), page = int i + 1\<rparr>"

definition demo_metadata :: "chunk list" where
  "demo_metadata = [demo_chunk ''alpha'' 0, demo_chunk ''beta'' 1, demo_chunk ''gamma'' 2]"

definition demo_embed :: "string embedder" where
  "demo_embed texts = Inr texts"

definition demo_index :: "(string, nat) flat_index" where
  "demo_index queries k =
     (if k \<le> 0 then Inl (Error ''AssertionError'')
      else Inr (map (\<lambda>q. take (nat k) ([1, 2, 3] @ replicate (nat k) 1000)) queries,
                map (\<lambda>q. take (nat k) ([2, 0, 1] @ replicate (nat k) (- 1))) queries))"

definition demo_rag :: "(string, nat) rag_pipeline" where
  "demo_rag = \<lparr>model = Some demo_embed, index = Some demo_index, chunks_metadata = demo_metadata\<rparr>"

definition demo_llm :: llm where
  "demo_llm calls prompt temperature = Inr ''Revenue grew. Reasoning: stated in the filing.''"

text \<open>
  A passage without a \<^verbatim>\<open>chunk_id\<close>, and the small pipeline with it in the first
  position.
\<close>

definition demo_unkeyed :: "string \<Rightarrow> chunk" where
  "demo_unkeyed t =
     \<lparr>ctext = t, company = ''GOOGL'', year = ''2023'', source_doc = ''GOOGL_2023.htm'',
      chunk_id = None, page = 1\<rparr>"

definition demo_rag_unkeyed :: "(string, nat) rag_pipeline" where
  "demo_rag_unkeyed =
     demo_rag\<lparr>chunks_metadata :=
       [demo_unkeyed ''delta'', demo_chunk ''beta'' 1, demo_chunk ''gamma'' 2]\<rparr>"

text \<open>
  The promise of the index library, read on a pipeline: whenever the pipeline's search
  for the query returns, what it returns meets \<open>flat_search_contract\<close>.
\<close>

definition search_meets_contract :: "('v, 'd::linorder) rag_pipeline \<Rightarrow> string \<Rightarrow> int \<Rightarrow> bool" where
  "search_meets_contract rag query_text k =
     (case model rag of
        None \<Rightarrow> True
      | Some enc \<Rightarrow>
          (case index rag of
             None \<Rightarrow> True
           | Some ix \<Rightarrow>
               (case enc [query_text] of
                  Inl e \<Rightarrow> True
                | Inr query_embedding \<Rightarrow>
                    (case ix query_embedding k of
                       Inl e \<Rightarrow> True
                     | Inr (distances, indices) \<Rightarrow>
                         flat_search_contract k distances indices))))"

section \<open>Running the small pipeline\<close>

lemma demo_retrieve_5:
  "retrieve_chunks demo_rag q 5 =
     [resolve (demo_chunk ''gamma'' 2) 1, resolve (demo_chunk ''alpha'' 0) 2,
      resolve (demo_chunk ''beta'' 1) 3]"
  by code_simp

section \<open>Deduplication of the retrieved chunks\<close>

text \<open>
  The retrieval loop appends the results of the sub-queries in order, and the
  deduplication loop, read from the left, keeps a chunk exactly when its key has not been
  seen before.
\<close>

lemma retrieve_all_fold:
  "fold (\<lambda>sub_q acc. acc @ retrieve_chunks rag sub_q 5) qs a
     = a @ concat (map (\<lambda>q. retrieve_chunks rag q 5) qs)"
  by (induction qs arbitrary: a) simp_all

lemma retrieve_all_concat:
  "retrieve_all rag qs = concat (map (\<lambda>q. retrieve_chunks rag q 5) qs)"
  by (simp add: retrieve_all_def retrieve_all_fold)

lemma add_unique_keys:
  "set (map fst (fold add_unique xs [])) = chunk_key ` set xs"
proof (induction xs rule: rev_induct)
  case Nil
  show ?case by simp
next
  case (snoc x xs)
  then show ?case by (auto simp: add_unique_def)
qed

lemma unique_chunks_snoc:
  "unique_chunks (xs @ [x]) =
     (if chunk_key x \<in> chunk_key ` set xs then unique_chunks xs else unique_chunks xs @ [x])"
  using add_unique_keys [of xs] by (simp add: unique_chunks_def add_unique_def)

lemma unique_chunks_Nil: "unique_chunks [] = []"
  by (simp add: unique_chunks_def)

lemma unique_chunks_key_set:
  "chunk_key ` set (unique_chunks xs) = chunk_key ` set xs"
  by (induction xs rule: rev_induct) (auto simp: unique_chunks_snoc unique_chunks_Nil)

lemma unique_chunks_distinct: "distinct (map chunk_key (unique_chunks xs))"
proof (induction xs rule: rev_induct)
  case Nil
  show ?case by (simp add: unique_chunks_Nil)
next
  case (snoc x xs)
  then show ?case
    using unique_chunks_key_set [of xs] by (auto simp: unique_chunks_snoc)
qed

lemma unique_chunks_order:
  "map chunk_key (unique_chunks xs) = rev (remdups (rev (map chunk_key xs)))"
  by (induction xs rule: rev_induct) (auto simp: unique_chunks_snoc unique_chunks_Nil)

lemma find_snoc:
  "find P (xs @ [x]) = (case find P xs of Some y \<Rightarrow> Some y | None \<Rightarrow> if P x then Some x else None)"
  by (induction xs) auto

lemma unique_chunks_first:
  "c \<in> set (unique_chunks xs) \<Longrightarrow> find (\<lambda>x. chunk_key x = chunk_key c) xs = Some c"
proof (induction xs rule: rev_induct)
  case Nil
  then show ?case by (simp add: unique_chunks_Nil)
next
  case (snoc x xs)
  show ?case
  proof (cases "c \<in> set (unique_chunks xs)")
    case True
    with snoc.IH show ?thesis by (simp add: find_snoc)
  next
    case False
    with snoc.prems have new: "chunk_key x \<notin> chunk_key ` set xs" and cx: "c = x"
      by (auto simp: unique_chunks_snoc split: if_splits)
    from new have "find (\<lambda>y. chunk_key y = chunk_key x) xs = None"
      unfolding find_None_iff by (metis imageI)
    with cx show ?thesis by (simp add: find_snoc)
  qed
qed

lemma unique_chunks_absorb:
  "chunk_key ` set ys \<subseteq> chunk_key ` set xs \<Longrightarrow>
     unique_chunks (xs @ ys @ zs) = unique_chunks (xs @ zs)"
proof (induction zs rule: rev_induct)
  case Nil
  then show ?case
  proof (induction ys rule: rev_induct)
    case Nil
    show ?case by simp
  next
    case (snoc y ys)
    then have "unique_chunks (xs @ ys) = unique_chunks xs" by simp
    moreover have "chunk_key y \<in> chunk_key ` set (xs @ ys)" using snoc.prems by auto
    ultimately show ?case
      using unique_chunks_snoc [of "xs @ ys" y] by simp
  qed
next
  case (snoc z zs)
  have keys: "chunk_key ` set (xs @ ys @ zs) = chunk_key ` set (xs @ zs)"
    using snoc.prems by auto
  show ?case
    using unique_chunks_snoc [of "xs @ ys @ zs" z] unique_chunks_snoc [of "xs @ zs" z]
      snoc.IH [OF snoc.prems] keys by simp
qed

lemma count_one_of_distinct:
  "distinct (map f ys) \<Longrightarrow> k \<in> f ` set ys \<Longrightarrow> length (filter (\<lambda>c. f c = k) ys) = 1"
proof (induction ys)
  case Nil
  then show ?case by simp
next
  case (Cons y ys)
  show ?case
  proof (cases "f y = k")
    case True
    with Cons.prems have "f y \<notin> f ` set ys" by simp
    with True have "\<forall>c \<in> set ys. f c \<noteq> k" by (metis imageI)
    then have "filter (\<lambda>c. f c = k) ys = []" by (simp add: filter_empty_conv)
    with True show ?thesis by simp
  next
    case False
    with Cons show ?thesis by auto
  qed
qed

lemma unique_chunks_idem: "unique_chunks (unique_chunks xs) = unique_chunks xs"
proof (induction xs rule: rev_induct)
  case Nil
  show ?case by (simp add: unique_chunks_Nil)
next
  case (snoc x xs)
  then show ?case
    using unique_chunks_key_set [of xs] by (simp add: unique_chunks_snoc)
qed

lemma unique_chunks_one:
  assumes "a \<in> set ys"
  shows "length (filter (\<lambda>d. chunk_key d = chunk_key a) (unique_chunks ys)) = 1"
proof -
  from assms have "chunk_key a \<in> chunk_key ` set (unique_chunks ys)"
    by (simp add: unique_chunks_key_set)
  with unique_chunks_distinct [of ys] show ?thesis
    by (rule count_one_of_distinct)
qed

text \<open>
  Claim C9. Deduplication keeps the first occurrence of each key, in first-seen order, and
  is idempotent. The key of a chunk is its \<^verbatim>\<open>chunk_id\<close> when it has a non-empty one,
  and otherwise (no \<^verbatim>\<open>chunk_id\<close>, or an empty one) its passage text followed by its
  source document. For every list \<open>xs\<close> of retrieved chunks: the keys of the deduplicated
  list are pairwise distinct; they are the keys of \<open>xs\<close> in the order of their first
  occurrence; every kept chunk is the first chunk of \<open>xs\<close> with its key; every chunk of
  \<open>xs\<close> has exactly one entry for its key; deduplicating again changes nothing. Running a
  sub-query \<open>q\<close> a second time leaves the deduplicated set as it was, and a chunk
  retrieved by any of the sub-queries (by two of them, too) has exactly one entry for
  its key.
\<close>

theorem dedup_idempotent:
  "(\<forall>cid. chunk_id c = Some cid \<longrightarrow> cid \<noteq> [] \<longrightarrow> chunk_key c = cid)
   \<and> (chunk_id c = None \<or> chunk_id c = Some [] \<longrightarrow> chunk_key c = ctext c @ source_doc c)
   \<and> distinct (map chunk_key (unique_chunks xs))
   \<and> map chunk_key (unique_chunks xs) = rev (remdups (rev (map chunk_key xs)))
   \<and> (\<forall>c \<in> set (unique_chunks xs). find (\<lambda>x. chunk_key x = chunk_key c) xs = Some c)
   \<and> (\<forall>c \<in> set xs.
        length (filter (\<lambda>d. chunk_key d = chunk_key c) (unique_chunks xs)) = 1)
   \<and> unique_chunks (unique_chunks xs) = unique_chunks xs
   \<and> unique_chunks (retrieve_all rag (qs1 @ [q] @ qs2 @ [q] @ qs3))
       = unique_chunks (retrieve_all rag (qs1 @ [q] @ qs2 @ qs3))
   \<and> (\<forall>sq \<in> set qs. \<forall>c \<in> set (retrieve_chunks rag sq 5).
        length (filter (\<lambda>d. chunk_key d = chunk_key c) (unique_chunks (retrieve_all rag qs))) = 1)"
proof -
  let ?r = "\<lambda>q. retrieve_chunks rag q 5"
  have key: "(\<forall>cid. chunk_id c = Some cid \<longrightarrow> cid \<noteq> [] \<longrightarrow> chunk_key c = cid)
   \<and> (chunk_id c = None \<or> chunk_id c = Some [] \<longrightarrow> chunk_key c = ctext c @ source_doc c)"
    by (auto simp: chunk_key_def)
  have twice: "unique_chunks (retrieve_all rag (qs1 @ [q] @ qs2 @ [q] @ qs3))
       = unique_chunks (retrieve_all rag (qs1 @ [q] @ qs2 @ qs3))"
  proof -
    let ?xs = "concat (map ?r qs1) @ ?r q @ concat (map ?r qs2)"
    have "chunk_key ` set (?r q) \<subseteq> chunk_key ` set ?xs" by auto
    from unique_chunks_absorb [OF this, of "concat (map ?r qs3)"]
    show ?thesis by (simp add: retrieve_all_concat)
  qed
  have each: "\<forall>sq \<in> set qs. \<forall>c \<in> set (?r sq).
        length (filter (\<lambda>d. chunk_key d = chunk_key c) (unique_chunks (retrieve_all rag qs))) = 1"
  proof (intro ballI)
    fix sq c
    assume "sq \<in> set qs" and "c \<in> set (?r sq)"
    then have "c \<in> set (retrieve_all rag qs)" by (auto simp: retrieve_all_concat)
    then show "length (filter (\<lambda>d. chunk_key d = chunk_key c)
                 (unique_chunks (retrieve_all rag qs))) = 1"
      by (rule unique_chunks_one)
  qed
  have all: "\<forall>c \<in> set xs.
        length (filter (\<lambda>d. chunk_key d = chunk_key c) (unique_chunks xs)) = 1"
    using unique_chunks_one by blast
  have first: "\<forall>c \<in> set (unique_chunks xs). find (\<lambda>x. chunk_key x = chunk_key c) xs = Some c"
    using unique_chunks_first by blast
  from key unique_chunks_distinct [of xs] unique_chunks_order [of xs] first all
    unique_chunks_idem [of xs] twice each
  show ?thesis by (intro conjI) (elim conjE, assumption)+
qed

lemma demo_unique_twice:
  "unique_chunks (retrieve_chunks demo_rag ''cloud revenue 2022'' 5
                  @ retrieve_chunks demo_rag ''cloud revenue 2023'' 5)
     = retrieve_chunks demo_rag ''cloud revenue 2022'' 5"
  by code_simp

lemma demo_retrieve_unkeyed:
  "retrieve_chunks demo_rag_unkeyed q 5 =
     [resolve (demo_chunk ''gamma'' 2) 1, resolve (demo_unkeyed ''delta'') 2,
      resolve (demo_chunk ''beta'' 1) 3]"
  by code_simp

theorem dedup_idempotent_witness:
  "length (filter (\<lambda>d. chunk_key d = ''GOOGL_2023_chunk_0002'')
     (unique_chunks (retrieve_all demo_rag [''cloud revenue 2022'', ''cloud revenue 2023'']))) = 1
   \<and> find (\<lambda>x. chunk_key x = ''GOOGL_2023_chunk_0002'')
        (retrieve_chunks demo_rag ''cloud revenue 2022'' 5
         @ retrieve_chunks demo_rag ''cloud revenue 2023'' 5)
      = Some (resolve (demo_chunk ''gamma'' 2) (1::nat))
   \<and> chunk_key (resolve (demo_chunk ''gamma'' 2) (1::nat)) = ''GOOGL_2023_chunk_0002''
   \<and> chunk_key (resolve (demo_unkeyed ''delta'') (2::nat)) = ''deltaGOOGL_2023.htm''
   \<and> length (filter (\<lambda>d. chunk_key d = ''deltaGOOGL_2023.htm'')
        (unique_chunks (retrieve_all demo_rag_unkeyed
           [''cloud revenue 2022'', ''cloud revenue 2023'']))) = 1"
proof -
  let ?qs = "[''cloud revenue 2022'', ''cloud revenue 2023'']"
  let ?xs = "retrieve_chunks demo_rag ''cloud revenue 2022'' 5
             @ retrieve_chunks demo_rag ''cloud revenue 2023'' 5"
  let ?g = "resolve (demo_chunk ''gamma'' 2) (1::nat)"
  let ?d = "resolve (demo_unkeyed ''delta'') (2::nat)"
  note t = dedup_idempotent [of ?g ?xs demo_rag "[]" "[]" "[]" "[]" ?qs]
  note u = dedup_idempotent [of ?d "[]" demo_rag_unkeyed "[]" "[]" "[]" "[]" ?qs]
  have gid: "chunk_id ?g = Some ''GOOGL_2023_chunk_0002''"
    by (simp add: resolve_def demo_chunk_def) code_simp
  from t have "\<forall>cid. chunk_id ?g = Some cid \<longrightarrow> cid \<noteq> [] \<longrightarrow> chunk_key ?g = cid"
    by (elim conjE)
  with gid have kg: "chunk_key ?g = ''GOOGL_2023_chunk_0002''" by simp
  have "chunk_id ?d = None" by (simp add: resolve_def demo_unkeyed_def)
  moreover from u have "chunk_id ?d = None \<or> chunk_id ?d = Some [] \<longrightarrow>
      chunk_key ?d = ctext ?d @ source_doc ?d"
    by (elim conjE)
  ultimately have "chunk_key ?d = ctext ?d @ source_doc ?d" by simp
  then have kd: "chunk_key ?d = ''deltaGOOGL_2023.htm''"
    by (simp add: resolve_def demo_unkeyed_def)
  from t have "\<forall>sq \<in> set ?qs. \<forall>c \<in> set (retrieve_chunks demo_rag sq 5).
            length (filter (\<lambda>d. chunk_key d = chunk_key c)
              (unique_chunks (retrieve_all demo_rag ?qs))) = 1"
    by (elim conjE)
  moreover have "''cloud revenue 2022'' \<in> set ?qs" by simp
  moreover have "?g \<in> set (retrieve_chunks demo_rag ''cloud revenue 2022'' 5)"
    by (simp add: demo_retrieve_5)
  ultimately have "length (filter (\<lambda>d. chunk_key d = chunk_key ?g)
              (unique_chunks (retrieve_all demo_rag ?qs))) = 1"
    by blast
  then have one: "length (filter (\<lambda>d. chunk_key d = ''GOOGL_2023_chunk_0002'')
              (unique_chunks (retrieve_all demo_rag ?qs))) = 1"
    by (simp only: kg)
  from t have "\<forall>c \<in> set (unique_chunks ?xs). find (\<lambda>x. chunk_key x = chunk_key c) ?xs = Some c"
    by (elim conjE)
  moreover have "?g \<in> set (unique_chunks ?xs)"
    unfolding demo_unique_twice by (simp add: demo_retrieve_5)
  ultimately have "find (\<lambda>x. chunk_key x = chunk_key ?g) ?xs = Some ?g" by blast
  then have fnd: "find (\<lambda>x. chunk_key x = ''GOOGL_2023_chunk_0002'') ?xs = Some ?g"
    by (simp only: kg)
  from u have "\<forall>sq \<in> set ?qs. \<forall>c \<in> set (retrieve_chunks demo_rag_unkeyed sq 5).
            length (filter (\<lambda>d. chunk_key d = chunk_key c)
              (unique_chunks (retrieve_all demo_rag_unkeyed ?qs))) = 1"
    by (elim conjE)
  moreover have "''cloud revenue 2023'' \<in> set ?qs" by simp
  moreover have "?d \<in> set (retrieve_chunks demo_rag_unkeyed ''cloud revenue 2023'' 5)"
    by (simp add: demo_retrieve_unkeyed)
  ultimately have "length (filter (\<lambda>d. chunk_key d = chunk_key ?d)
              (unique_chunks (retrieve_all demo_rag_unkeyed ?qs))) = 1"
    by blast
  then have two: "length (filter (\<lambda>d. chunk_key d = ''deltaGOOGL_2023.htm'')
              (unique_chunks (retrieve_all demo_rag_unkeyed ?qs))) = 1"
    by (simp only: kd)
  from one fnd kg kd two show ?thesis by (intro conjI)
qed

section \<open>Retrieval\<close>

lemma truncate_resolve: "chunk.truncate (resolve c d) = c"
  by (simp add: resolve_def chunk.truncate_def)

lemma distance_resolve: "distance (resolve c d) = d"
  by (simp add: resolve_def)

lemma retrieve_loop_skip:
  "retrieve_loop md D ps acc =
     retrieve_loop md D (filter (\<lambda>(i, idx). 0 \<le> idx \<and> idx < int (length md)) ps) acc"
  by (induction md D ps acc rule: retrieve_loop.induct) (auto split: sum.splits)

lemma retrieve_loop_elems:
  "retrieve_loop md D ps acc = Inr r \<Longrightarrow> x \<in> set r \<Longrightarrow>
     x \<in> set acc \<or> (\<exists>idx. 0 \<le> idx \<and> idx < int (length md) \<and> chunk.truncate x = md ! nat idx)"
proof (induction md D ps acc rule: retrieve_loop.induct)
  case (1 md distances retrieved_chunks)
  then show ?case by simp
next
  case (2 md distances i idx rest retrieved_chunks)
  show ?case
  proof (cases "0 \<le> idx \<and> idx < int (length md)")
    case False
    with 2 show ?thesis by simp
  next
    case True
    with "2.prems" obtain row d where row: "py_getitem distances 0 = Inr row"
      and d: "py_getitem row i = Inr d"
      and run: "retrieve_loop md distances rest (retrieved_chunks @ [resolve (md ! nat idx) d]) = Inr r"
      by (auto split: sum.splits)
    from "2.IH"(1) [OF True row d run "2.prems"(2)] True
    show ?thesis by (auto simp: truncate_resolve)
  qed
qed

lemma retrieve_loop_closed:
  "\<forall>p \<in> set ps. fst p < length drow \<Longrightarrow>
   retrieve_loop md [drow] ps acc =
     Inr (acc @ map (\<lambda>(i, idx). resolve (md ! nat idx) (drow ! i))
                  (filter (\<lambda>(i, idx). 0 \<le> idx \<and> idx < int (length md)) ps))"
proof (induction ps arbitrary: acc)
  case Nil
  show ?case by simp
next
  case (Cons p ps)
  obtain i idx where p: "p = (i, idx)" by (cases p)
  from Cons.prems p have i: "i < length drow" and rest: "\<forall>p \<in> set ps. fst p < length drow"
    by simp_all
  show ?case
  proof (cases "0 \<le> idx \<and> idx < int (length md)")
    case True
    then show ?thesis
      using Cons.IH [OF rest, of "acc @ [resolve (md ! nat idx) (drow ! i)]"] i
      by (simp add: p py_getitem_def)
  next
    case False
    then show ?thesis
      using Cons.IH [OF rest, of acc] by (auto simp: p)
  qed
qed

lemma map_snd_filter:
  "map snd (filter (\<lambda>(i, idx). P idx) ps) = filter P (map snd ps)"
  by (induction ps) auto

lemma sorted_map_nth:
  "sorted xs \<Longrightarrow> sorted js \<Longrightarrow> \<forall>j \<in> set js. j < length xs \<Longrightarrow> sorted (map ((!) xs) js)"
  by (induction js) (auto simp: sorted_nth_mono)

lemma length_distinct_bounded:
  fixes xs :: "int list"
  assumes "distinct xs" and "\<forall>x \<in> set xs. 0 \<le> x \<and> x < int n"
  shows "length xs \<le> n"
proof -
  have "set xs \<subseteq> {0..<int n}" using assms(2) by auto
  then have "card (set xs) \<le> card {0..<int n}" by (intro card_mono) simp_all
  with assms(1) show ?thesis by (simp add: distinct_card)
qed

lemma contract_result:
  fixes drow :: "('d::linorder) list"
  assumes len: "length drow = length irow" and srt: "sorted drow"
    and dst: "distinct (filter (\<lambda>idx. 0 \<le> idx) irow)"
    and run: "retrieve_loop md [drow] (enumerate 0 irow) [] = Inr r"
  shows "length r \<le> min (length irow) (length md) \<and> sorted (map distance r)"
proof -
  let ?V = "\<lambda>(i::nat, idx). 0 \<le> idx \<and> idx < int (length md)"
  let ?ps = "enumerate 0 irow"
  have bound: "\<forall>p \<in> set ?ps. fst p < length drow"
    using len by (auto simp: in_set_enumerate_eq)
  from retrieve_loop_closed [OF bound, of md "[]"] run
  have r: "r = map (\<lambda>(i, idx). resolve (md ! nat idx) (drow ! i)) (filter ?V ?ps)"
    by simp
  have "length r \<le> length ?ps" unfolding r length_map by (rule length_filter_le)
  then have l1: "length r \<le> length irow" by simp
  have snd_eq: "map snd (filter ?V ?ps) = filter (\<lambda>idx. 0 \<le> idx \<and> idx < int (length md)) irow"
    using map_snd_filter [of "\<lambda>idx. 0 \<le> idx \<and> idx < int (length md)" ?ps] by simp
  have "distinct (filter (\<lambda>idx. idx < int (length md)) (filter (\<lambda>idx. 0 \<le> idx) irow))"
    using dst by (rule distinct_filter)
  then have "distinct (map snd (filter ?V ?ps))"
    unfolding snd_eq filter_filter .
  moreover have "\<forall>x \<in> set (map snd (filter ?V ?ps)). 0 \<le> x \<and> x < int (length md)"
    by (simp add: snd_eq)
  ultimately have "length (map snd (filter ?V ?ps)) \<le> length md"
    by (rule length_distinct_bounded)
  then have l2: "length r \<le> length md" by (simp add: r)
  have "sorted (map fst ?ps)" by simp
  then have s1: "sorted (map fst (filter ?V ?ps))" by (rule sorted_filter)
  have "\<forall>j \<in> set (map fst (filter ?V ?ps)). j < length drow"
    using bound by auto
  with srt s1 have "sorted (map ((!) drow) (map fst (filter ?V ?ps)))"
    by (rule sorted_map_nth)
  moreover have "map distance r = map ((!) drow) (map fst (filter ?V ?ps))"
    by (simp add: r comp_def case_prod_unfold distance_resolve)
  ultimately have "sorted (map distance r)" by simp
  with l1 l2 show ?thesis by simp
qed

text \<open>
  Claim C2. For every query and every \<open>k\<close> (in particular \<open>k \<ge> 1\<close>), over a pipeline
  holding \<open>n\<close> passages, \<^verbatim>\<open>retrieve_chunks\<close> returns at most \<open>min k n\<close> results, in
  order of non-decreasing distance. The order and the count of the raw neighbours are the
  index library's; the statement assumes what that library promises for a search that
  returns (\<open>k\<close> labels in ascending order of distance, no position twice).
\<close>

theorem retrieve_chunks_bounded_sorted:
  fixes rag :: "('v, 'd::linorder) rag_pipeline"
  assumes "search_meets_contract rag q k"
  shows "length (retrieve_chunks rag q k) \<le> min (nat k) (length (chunks_metadata rag))
         \<and> sorted (map distance (retrieve_chunks rag q k))"
proof (cases "retrieve_chunks rag q k = []")
  case True
  then show ?thesis by simp
next
  case False
  then obtain enc ix where m: "model rag = Some enc" and i: "index rag = Some ix"
    by (auto simp: retrieve_chunks_def split: option.splits)
  from False m i obtain r where t: "retrieve_try enc ix (chunks_metadata rag) q k = Inr r"
    and res: "retrieve_chunks rag q k = r"
    by (auto simp: retrieve_chunks_def split: if_splits sum.splits)
  from t obtain qe D I row where e: "enc [q] = Inr qe" and s: "ix qe k = Inr (D, I)"
    and row: "py_getitem I 0 = Inr row"
    and run: "retrieve_loop (chunks_metadata rag) D (enumerate 0 row) [] = Inr r"
    by (auto simp: retrieve_try_def split: sum.splits prod.splits)
  from assms m i e s have c: "flat_search_contract k D I"
    by (simp add: search_meets_contract_def)
  then obtain drow irow where D: "D = [drow]" and I: "I = [irow]"
    and len: "length drow = nat k" "length irow = nat k" and srt: "sorted drow"
    and dst: "distinct (filter (\<lambda>idx. 0 \<le> idx) irow)"
    by (auto simp: flat_search_contract_def split: list.splits)
  from row I have "row = irow" by (simp add: py_getitem_def)
  with run D have "retrieve_loop (chunks_metadata rag) [drow] (enumerate 0 irow) [] = Inr r"
    by simp
  from contract_result [OF _ srt dst this] len res show ?thesis by simp
qed

lemma demo_contract_5: "search_meets_contract demo_rag ''cloud revenue 2023'' 5"
  by code_simp

theorem retrieve_chunks_bounded_sorted_witness:
  "search_meets_contract demo_rag ''cloud revenue 2023'' 5
   \<and> length (retrieve_chunks demo_rag ''cloud revenue 2023'' 5)
        \<le> min (nat 5) (length (chunks_metadata demo_rag))
   \<and> sorted (map distance (retrieve_chunks demo_rag ''cloud revenue 2023'' 5))"
  using retrieve_chunks_bounded_sorted [OF demo_contract_5] demo_contract_5 by simp

text \<open>
  Claim C3. Every result of \<^verbatim>\<open>retrieve_chunks\<close> is the metadata at a position inside
  \<open>[0, len(metadata))\<close>. A position outside that range is skipped: the loop gives the
  same outcome as on the list without such positions, and it does not raise when every
  position it is given has a distance, whatever the positions are.
\<close>

theorem retrieve_chunks_in_range:
  "(\<forall>r \<in> set (retrieve_chunks rag q k).
      \<exists>idx. 0 \<le> idx \<and> idx < int (length (chunks_metadata rag))
            \<and> chunk.truncate r = chunks_metadata rag ! nat idx)
   \<and> retrieve_loop md D ps acc =
       retrieve_loop md D (filter (\<lambda>(i, idx). 0 \<le> idx \<and> idx < int (length md)) ps) acc
   \<and> ((\<forall>p \<in> set ps. fst p < length drow) \<longrightarrow>
        retrieve_loop md [drow] ps acc =
          Inr (acc @ map (\<lambda>(i, idx). resolve (md ! nat idx) (drow ! i))
                       (filter (\<lambda>(i, idx). 0 \<le> idx \<and> idx < int (length md)) ps)))"
proof -
  have "\<exists>idx. 0 \<le> idx \<and> idx < int (length (chunks_metadata rag))
            \<and> chunk.truncate r = chunks_metadata rag ! nat idx"
    if r: "r \<in> set (retrieve_chunks rag q k)" for r
  proof -
    from r have ne: "retrieve_chunks rag q k \<noteq> []" by auto
    then obtain enc ix where m: "model rag = Some enc" and i: "index rag = Some ix"
      by (auto simp: retrieve_chunks_def split: option.splits)
    from ne m i obtain rs where "retrieve_try enc ix (chunks_metadata rag) q k = Inr rs"
      and res: "retrieve_chunks rag q k = rs"
      by (auto simp: retrieve_chunks_def split: if_splits sum.splits)
    from r res have "r \<in> set rs" by simp
    from \<open>retrieve_try enc ix (chunks_metadata rag) q k = Inr rs\<close>
    obtain D ps where "retrieve_loop (chunks_metadata rag) D ps [] = Inr rs"
      by (auto simp: retrieve_try_def split: sum.splits prod.splits)
    from retrieve_loop_elems [OF this \<open>r \<in> set rs\<close>] show ?thesis by simp
  qed
  then show ?thesis
    using retrieve_loop_skip [of md D ps acc] retrieve_loop_closed [of ps drow md acc]
    by blast
qed

theorem retrieve_chunks_in_range_witness:
  "(\<exists>idx. 0 \<le> idx \<and> idx < int (length (chunks_metadata demo_rag))
     \<and> chunk.truncate (resolve (demo_chunk ''gamma'' 2) (1::nat)) = chunks_metadata demo_rag ! nat idx)
   \<and> retrieve_loop demo_metadata [[1, 2, 3, 1000, 1000 :: nat]]
        (enumerate 0 [2, 0, 1, - 1, - 1]) []
      = Inr [resolve (demo_chunk ''gamma'' 2) 1, resolve (demo_chunk ''alpha'' 0) 2,
             resolve (demo_chunk ''beta'' 1) 3]"
proof -
  have "resolve (demo_chunk ''gamma'' 2) (1::nat) \<in> set (retrieve_chunks demo_rag ''cloud revenue 2023'' 5)"
    by (simp add: demo_retrieve_5)
  with retrieve_chunks_in_range [of demo_rag "''cloud revenue 2023''" 5 "[]" "[]" "[]" "[]" "[]"]
  have a: "\<exists>idx. 0 \<le> idx \<and> idx < int (length (chunks_metadata demo_rag))
     \<and> chunk.truncate (resolve (demo_chunk ''gamma'' 2) (1::nat)) = chunks_metadata demo_rag ! nat idx"
    by blast
  have "\<forall>p \<in> set (enumerate 0 [2, 0, 1, - 1, - 1 :: int]). fst p < length [1, 2, 3, 1000, 1000 :: nat]"
    by (auto simp: in_set_enumerate_eq)
  with retrieve_chunks_in_range [of demo_rag "[]" 0 demo_metadata "[]"
      "enumerate 0 [2, 0, 1, - 1, - 1]" "[]" "[1, 2, 3, 1000, 1000 :: nat]"]
  have "retrieve_loop demo_metadata [[1, 2, 3, 1000, 1000 :: nat]]
          (enumerate 0 [2, 0, 1, - 1, - 1]) []
        = Inr ([] @ map (\<lambda>(i, idx). resolve (demo_metadata ! nat idx) ([1, 2, 3, 1000, 1000] ! i))
                 (filter (\<lambda>(i, idx). 0 \<le> idx \<and> idx < int (length demo_metadata))
                    (enumerate 0 [2, 0, 1, - 1, - 1])))"
    by blast
  then have "retrieve_loop demo_metadata [[1, 2, 3, 1000, 1000 :: nat]]
          (enumerate 0 [2, 0, 1, - 1, - 1]) []
      = Inr [resolve (demo_chunk ''gamma'' 2) 1, resolve (demo_chunk ''alpha'' 0) 2,
             resolve (demo_chunk ''beta'' 1) 3]"
    by (simp add: demo_metadata_def)
  with a show ?thesis by simp
qed

text \<open>
  Claim C6, as stated, fails for the empty query: no check rejects it, the embedding
  model embeds it and the index answers it like any other query.
\<close>

theorem empty_query_is_searched:
  "retrieve_chunks demo_rag '''' 5 =
     [resolve (demo_chunk ''gamma'' 2) 1, resolve (demo_chunk ''alpha'' 0) 2,
      resolve (demo_chunk ''beta'' 1) 3]
   \<and> retrieve_chunks demo_rag '''' 5 \<noteq> []"
  by (simp add: demo_retrieve_5)

text \<open>
  Claim C6, amended. \<^verbatim>\<open>retrieve_chunks\<close> never raises to its caller: it returns the
  empty list when the pipeline is not initialised, and whenever the body of its
  \<^verbatim>\<open>try\<close> raises, which it does when the embedding raises and when the index search
  raises (as the index library does for an invalid \<open>k\<close>). An empty query is not an
  input error of this function.
\<close>

theorem retrieve_chunks_never_raises:
  "(model rag = None \<or> index rag = None \<or> chunks_metadata rag = [] \<longrightarrow> retrieve_chunks rag q k = [])
   \<and> (\<forall>enc ix e. model rag = Some enc \<longrightarrow> index rag = Some ix \<longrightarrow>
         retrieve_try enc ix (chunks_metadata rag) q k = Inl e \<longrightarrow> retrieve_chunks rag q k = [])
   \<and> (\<forall>enc ix md e. enc [q] = Inl e \<longrightarrow> retrieve_try enc ix md q k = Inl e)
   \<and> (\<forall>enc ix md qe e. enc [q] = Inr qe \<longrightarrow> ix qe k = Inl e \<longrightarrow>
         retrieve_try enc ix md q k = Inl e)"
  by (auto simp: retrieve_chunks_def retrieve_try_def split: option.splits)

theorem retrieve_chunks_never_raises_witness:
  "demo_index [''cloud revenue 2023''] 0 = Inl (Error ''AssertionError'')
   \<and> retrieve_chunks demo_rag ''cloud revenue 2023'' 0 = []
   \<and> retrieve_chunks (demo_rag\<lparr>index := None\<rparr>) ''cloud revenue 2023'' 5 = []
   \<and> retrieve_try (\<lambda>texts. Inl (Error ''out of memory'')) demo_index demo_metadata
        ''cloud revenue 2023'' 5 = (Inl (Error ''out of memory'') :: error + nat retrieved list)"
proof -
  have s: "demo_index [''cloud revenue 2023''] 0 = Inl (Error ''AssertionError'')"
    by (simp add: demo_index_def)
  have e: "demo_embed [''cloud revenue 2023''] = Inr [''cloud revenue 2023'']"
    by (simp add: demo_embed_def)
  have m: "model demo_rag = Some demo_embed" and i: "index demo_rag = Some demo_index"
    by (simp_all add: demo_rag_def)
  from retrieve_chunks_never_raises [of demo_rag "''cloud revenue 2023''" 0] e s
  have "retrieve_try demo_embed demo_index (chunks_metadata demo_rag) ''cloud revenue 2023'' 0
          = Inl (Error ''AssertionError'')"
    by blast
  with retrieve_chunks_never_raises [of demo_rag "''cloud revenue 2023''" 0] m i
  have a: "retrieve_chunks demo_rag ''cloud revenue 2023'' 0 = []" by blast
  have "index (demo_rag\<lparr>index := None\<rparr>) = None" by simp
  with retrieve_chunks_never_raises [of "demo_rag\<lparr>index := None\<rparr>" "''cloud revenue 2023''" 5]
  have b: "retrieve_chunks (demo_rag\<lparr>index := None\<rparr>) ''cloud revenue 2023'' 5 = []" by blast
  have c: "retrieve_try (\<lambda>texts. Inl (Error ''out of memory'')) demo_index demo_metadata
        ''cloud revenue 2023'' 5 = (Inl (Error ''out of memory'') :: error + nat retrieved list)"
    using retrieve_chunks_never_raises [of demo_rag "''cloud revenue 2023''" 5,
        THEN conjunct2, THEN conjunct2, THEN conjunct1, rule_format,
        where enc = "\<lambda>texts. Inl (Error ''out of memory'')" and e = "Error ''out of memory''"
          and ix = demo_index and md = demo_metadata]
    by simp
  from s a b c show ?thesis by simp
qed

section \<open>Loading the index\<close>

text \<open>
  Claim C7 does not hold of the code. When both files exist and the index file loads,
  \<^verbatim>\<open>load_or_create_index\<close> ignores the result of loading the metadata: if reading
  the metadata file raises, it still reports success, with the loaded index and no
  metadata, and does not rebuild. The rebuild path, on the same files, checks that
  result and reports failure.
\<close>

theorem load_reports_success_without_metadata:
  "load_or_create_index F
     \<lparr>faiss_index_file = Some (Inr ix), chunk_metadata_file = Some (Inl e)\<rparr>
     \<lparr>model = m, index = None, chunks_metadata = []\<rparr>
   = (True, \<lparr>model = m, index = Some ix, chunks_metadata = []\<rparr>,
      \<lparr>faiss_index_file = Some (Inr ix), chunk_metadata_file = Some (Inl e)\<rparr>)
   \<and> fst (create_and_save_embeddings_and_index F
        \<lparr>faiss_index_file = Some (Inr ix), chunk_metadata_file = Some (Inl e)\<rparr>
        \<lparr>model = m, index = None, chunks_metadata = []\<rparr>) = False"
  by (simp add: load_or_create_index_def load_chunks_metadata_def
      create_and_save_embeddings_and_index_def split: option.splits)

text \<open>
  The other ways of failing to load do fall back to the rebuild.
\<close>

lemma load_falls_back:
  assumes "faiss_index_file fs = None \<or> chunk_metadata_file fs = None
           \<or> (\<exists>e. faiss_index_file fs = Some (Inl e))"
  shows "load_or_create_index F fs rag = create_and_save_embeddings_and_index F fs rag"
  using assms by (auto simp: load_or_create_index_def)

section \<open>Answering a query\<close>

lemma answer_query_sub_queries:
  "sub_queries (fst (answer_query generate rag calls uq)) = fst (plan_sub_queries generate calls uq)"
  by (simp add: answer_query_def Let_def split: prod.splits)

lemma answer_query_sources:
  "sources (fst (answer_query generate rag calls uq)) =
     map source_for_output (unique_chunks (retrieve_all rag (fst (plan_sub_queries generate calls uq))))"
  by (simp add: answer_query_def synthesize_answer_def Let_def split: prod.splits)

lemma retrieve_all_empty:
  "\<forall>sq \<in> set qs. retrieve_chunks rag sq 5 = [] \<Longrightarrow> retrieve_all rag qs = []"
  by (simp add: retrieve_all_concat)

lemma synthesize_answer_empty:
  "synthesize_answer generate calls uq [] subs =
     ((''Could not find relevant information to answer the query.'',
       ''No relevant data retrieved.'', []), calls)"
  by (simp add: synthesize_answer_def)

lemma plan_sub_queries_calls:
  "snd (plan_sub_queries generate calls uq) =
     calls @ (if complex_query uq then [(decomposition_prompt uq, 0)] else [])"
  by (simp add: plan_sub_queries_def decompose_query_def call_llm_def
      split: prod.splits sum.splits error.splits)

text \<open>
  Claim C8. If retrieval returns no passage for any sub-query, \<^verbatim>\<open>answer_query\<close>
  answers with the fixed "Could not find relevant information" text and an empty list of
  sources, and synthesis calls the generation capability zero times: the only call the
  whole run can have made is the decomposition prompt of a question that passed the
  keyword gate, and \<^verbatim>\<open>_synthesize_answer\<close> on the empty set returns the calls made so
  far as they were.
\<close>

theorem empty_retrieval_short_circuit:
  assumes "\<forall>sq \<in> set (sub_queries (fst (answer_query generate rag calls uq))).
             retrieve_chunks rag sq 5 = []"
  shows "answer (fst (answer_query generate rag calls uq))
           = ''Could not find relevant information to answer the query.''
       \<and> sources (fst (answer_query generate rag calls uq)) = []
       \<and> snd (answer_query generate rag calls uq)
           = calls @ (if complex_query uq then [(decomposition_prompt uq, 0)] else [])
       \<and> snd (synthesize_answer generate calls1 uq
                (unique_chunks (retrieve_all rag (sub_queries (fst (answer_query generate rag calls uq)))))
                subs) = calls1"
proof -
  obtain subs c1 where p: "plan_sub_queries generate calls uq = (subs, c1)"
    by (cases "plan_sub_queries generate calls uq")
  from assms have "retrieve_all rag subs = []"
    unfolding answer_query_sub_queries p fst_conv by (rule retrieve_all_empty)
  then have u: "unique_chunks (retrieve_all rag subs) = []"
    by (simp add: unique_chunks_Nil)
  have "answer_query generate rag calls uq =
          (\<lparr>query = uq, answer = ''Could not find relevant information to answer the query.'',
            reasoning = ''No relevant data retrieved.'',
            sub_queries = subs, sources = []\<rparr>, c1)"
    by (simp add: answer_query_def p u synthesize_answer_empty)
  moreover have "c1 = calls @ (if complex_query uq then [(decomposition_prompt uq, 0)] else [])"
    using plan_sub_queries_calls [of generate calls uq] by (simp add: p)
  ultimately show ?thesis
    by (simp add: u synthesize_answer_empty)
qed

lemma no_metadata_no_results: "retrieve_chunks (rag\<lparr>chunks_metadata := []\<rparr>) sq k = []"
  by (simp add: retrieve_chunks_def split: option.splits)

lemma demo_complex: "complex_query ''Compare the cloud revenue of Google and Microsoft''"
  by code_simp

theorem empty_retrieval_short_circuit_witness:
  "answer (fst (answer_query demo_llm (demo_rag\<lparr>chunks_metadata := []\<rparr>) []
       ''Compare the cloud revenue of Google and Microsoft''))
     = ''Could not find relevant information to answer the query.''
   \<and> sources (fst (answer_query demo_llm (demo_rag\<lparr>chunks_metadata := []\<rparr>) []
       ''Compare the cloud revenue of Google and Microsoft'')) = []
   \<and> length (snd (answer_query demo_llm (demo_rag\<lparr>chunks_metadata := []\<rparr>) []
       ''Compare the cloud revenue of Google and Microsoft'')) = 1"
proof -
  have "\<forall>sq \<in> set (sub_queries (fst (answer_query demo_llm (demo_rag\<lparr>chunks_metadata := []\<rparr>) []
            ''Compare the cloud revenue of Google and Microsoft''))).
          retrieve_chunks (demo_rag\<lparr>chunks_metadata := []\<rparr>) sq 5 = []"
    by (simp add: no_metadata_no_results)
  from empty_retrieval_short_circuit [OF this] demo_complex show ?thesis by simp
qed

text \<open>
  Claim C10, as stated, fails for a short passage: the excerpt is the first 200
  characters followed by three dots, so a passage of at most 200 characters is carried
  whole. Here the three passages retrieved have five, five and four characters.
\<close>

theorem short_passage_excerpt_is_whole_text:
  "map excerpt (sources (fst (answer_query demo_llm demo_rag [] ''What was total revenue in 2023?'')))
     = [''gamma...'', ''alpha...'', ''beta...'']
   \<and> map ctext (retrieve_chunks demo_rag ''What was total revenue in 2023?'' 5)
     = [''gamma'', ''alpha'', ''beta'']"
  by code_simp

text \<open>
  Claim C10, amended. Each entry of \<^verbatim>\<open>sources\<close> is built from one deduplicated
  passage, and its excerpt is the first 200 characters of the passage text followed by
  \<^verbatim>\<open>...\<close>: at most 203 characters. A passage longer than 200 characters is cut to a
  proper prefix; a passage of at most 200 characters appears in full.
\<close>

theorem sources_excerpt_bounded:
  "sources (fst (answer_query generate rag calls uq)) =
     map source_for_output
       (unique_chunks (retrieve_all rag (sub_queries (fst (answer_query generate rag calls uq)))))
   \<and> excerpt (source_for_output d) = take 200 (ctext d) @ ''...''
   \<and> length (excerpt (source_for_output d)) \<le> 203
   \<and> (length (ctext d) \<le> 200 \<longrightarrow> excerpt (source_for_output d) = ctext d @ ''...'')
   \<and> (200 < length (ctext d) \<longrightarrow>
        length (excerpt (source_for_output d)) = 203
        \<and> strict_prefix (take 200 (ctext d)) (ctext d))"
proof -
  have "strict_prefix (take 200 (ctext d)) (ctext d)" if "200 < length (ctext d)"
  proof -
    have "prefix (take 200 (ctext d)) (ctext d)" by (rule take_is_prefix)
    moreover have "take 200 (ctext d) \<noteq> ctext d"
      using that by (metis length_take min.absorb2 less_imp_le_nat nat_neq_iff)
    ultimately show ?thesis by (simp add: strict_prefix_def)
  qed
  then show ?thesis
    by (simp add: answer_query_sources answer_query_sub_queries source_for_output_def)
qed

theorem sources_excerpt_bounded_witness:
  "excerpt (source_for_output (resolve (demo_chunk ''gamma'' 2) (1::nat))) = ''gamma...''
   \<and> length (excerpt (source_for_output
        (resolve (demo_chunk (replicate 201 (CHR ''a'')) 0) (1::nat)))) = 203"
proof -
  have a: "ctext (resolve (demo_chunk t i) d) = t" for t i and d :: nat
    by (simp add: resolve_def demo_chunk_def)
  from sources_excerpt_bounded [of demo_llm demo_rag "[]" "[]"
      "resolve (demo_chunk ''gamma'' 2) (1::nat)"]
  have "length (ctext (resolve (demo_chunk ''gamma'' 2) (1::nat))) \<le> 200 \<longrightarrow>
        excerpt (source_for_output (resolve (demo_chunk ''gamma'' 2) (1::nat)))
          = ctext (resolve (demo_chunk ''gamma'' 2) (1::nat)) @ ''...''"
    by blast
  then have short: "excerpt (source_for_output (resolve (demo_chunk ''gamma'' 2) (1::nat))) = ''gamma...''"
    by (simp add: a)
  from sources_excerpt_bounded [of demo_llm demo_rag "[]" "[]"
      "resolve (demo_chunk (replicate 201 (CHR ''a'')) 0) (1::nat)"]
  have "200 < length (ctext (resolve (demo_chunk (replicate 201 (CHR ''a'')) 0) (1::nat))) \<longrightarrow>
        length (excerpt (source_for_output
          (resolve (demo_chunk (replicate 201 (CHR ''a'')) 0) (1::nat)))) = 203"
    by blast
  then have "length (excerpt (source_for_output
          (resolve (demo_chunk (replicate 201 (CHR ''a'')) 0) (1::nat)))) = 203"
    by (simp add: a)
  with short show ?thesis by simp
qed

section \<open>The chunker\<close>

text \<open>
  With an overlap smaller than the chunk size the hard split advances, so a call of the
  chunker ends: it returns or it raises. The reassembly loop keeps \<open>split_inv\<close>.
\<close>

lemma hard_split_loop_returns:
  assumes "Ov < S"
  shows "\<exists>r. hard_split_loop E tokens S Ov start acc = Some r"
  using assms
proof (induction "nat (int (length tokens) - start)" arbitrary: start acc rule: less_induct)
  case less
  show ?case
  proof (cases "start < int (length tokens)")
    case True
    with less.prems
    have "nat (int (length tokens) - (start + (S - Ov))) < nat (int (length tokens) - start)"
      by linarith
    from less.hyps [OF this less.prems]
    show ?thesis by (subst hard_split_loop.simps) (simp add: True)
  next
    case False
    then show ?thesis by (subst hard_split_loop.simps) simp
  qed
qed

lemma fold_parts_None:
  "fold (\<lambda>part acc. case acc of None \<Rightarrow> None | Some (Inl e) \<Rightarrow> Some (Inl e)
          | Some (Inr st) \<Rightarrow>
              (case f part of None \<Rightarrow> None | Some (Inl e) \<Rightarrow> Some (Inl e)
               | Some (Inr subs) \<Rightarrow> Some (g subs st)))
     parts None = None"
  by (induction parts) simp_all

lemma fold_parts_raised:
  "fold (\<lambda>part acc. case acc of None \<Rightarrow> None | Some (Inl e) \<Rightarrow> Some (Inl e)
          | Some (Inr st) \<Rightarrow>
              (case f part of None \<Rightarrow> None | Some (Inl e) \<Rightarrow> Some (Inl e)
               | Some (Inr subs) \<Rightarrow> Some (g subs st)))
     parts (Some (Inl e)) = Some (Inl e)"
  by (induction parts) simp_all

lemma fold_parts_terminates:
  "\<forall>p \<in> set parts. f p \<noteq> None \<Longrightarrow>
   fold (\<lambda>part acc. case acc of None \<Rightarrow> None | Some (Inl e) \<Rightarrow> Some (Inl e)
          | Some (Inr st) \<Rightarrow>
              (case f part of None \<Rightarrow> None | Some (Inl e) \<Rightarrow> Some (Inl e)
               | Some (Inr subs) \<Rightarrow> Some (g subs st)))
     parts (Some r) \<noteq> None"
proof (induction parts arbitrary: r)
  case Nil
  show ?case by simp
next
  case (Cons p parts)
  then show ?case
    by (cases r; cases "f p") (auto simp: fold_parts_raised split: sum.splits)
qed

lemma fold_parts_inv:
  assumes "P st" and "\<And>subs st st1. P st \<Longrightarrow> g subs st = Inr st1 \<Longrightarrow> P st1"
    and "fold (\<lambda>part acc. case acc of None \<Rightarrow> None | Some (Inl e) \<Rightarrow> Some (Inl e)
          | Some (Inr st) \<Rightarrow>
              (case f part of None \<Rightarrow> None | Some (Inl e) \<Rightarrow> Some (Inl e)
               | Some (Inr subs) \<Rightarrow> Some (g subs st)))
     parts (Some (Inr st)) = Some (Inr st')"
  shows "P st'"
  using assms(1,3)
proof (induction parts arbitrary: st)
  case Nil
  then show ?case by simp
next
  case (Cons p parts)
  show ?case
  proof (cases "f p")
    case None
    with Cons.prems(2) show ?thesis by (simp add: fold_parts_None)
  next
    case (Some r)
    show ?thesis
    proof (cases r)
      case (Inl e)
      with Some Cons.prems(2) show ?thesis by (simp add: fold_parts_raised)
    next
      case (Inr subs)
      show ?thesis
      proof (cases "g subs st")
        case (Inl e)
        with Some Inr Cons.prems(2) show ?thesis by (simp add: fold_parts_raised)
      next
        case st1: (Inr st1)
        from assms(2) [OF Cons.prems(1) st1] have "P st1" .
        from Cons.IH [OF this] Some Inr st1 Cons.prems(2) show ?thesis by simp
      qed
    qed
  qed
qed

declare recursive_split.simps [simp del]

lemma recursive_split_terminates:
  "Ov < S \<Longrightarrow> recursive_split E S Ov current_text separator_index \<noteq> None"
proof (induction E S Ov current_text separator_index rule: recursive_split.induct)
  case (1 E S Ov current_text separator_index)
  note eq = recursive_split.simps [of E S Ov current_text separator_index]
  show ?case
  proof (cases "get_tokens E current_text")
    case (Inl e)
    then show ?thesis by (simp add: eq)
  next
    case (Inr tokens)
    show ?thesis
    proof (cases "int (length tokens) \<le> S \<or> length separators \<le> separator_index")
      case True
      then show ?thesis
        using hard_split_loop_returns [OF "1.prems", of E tokens 0 "[]"]
        by (auto simp: eq Inr)
    next
      case False
      with "1.IH" [OF Inr] "1.prems"
      have "\<forall>p \<in> set (py_split current_text (separators ! separator_index)).
              recursive_split E S Ov p (separator_index + 1) \<noteq> None"
        by blast
      from fold_parts_terminates [OF this,
          where g = "add_sub_parts E S Ov (separators ! separator_index)"
            and r = "Inr init_state"]
      obtain r where
        "fold (\<lambda>part acc. case acc of None \<Rightarrow> None | Some (Inl e) \<Rightarrow> Some (Inl e)
                 | Some (Inr st) \<Rightarrow>
                     (case recursive_split E S Ov part (separator_index + 1) of
                        None \<Rightarrow> None | Some (Inl e) \<Rightarrow> Some (Inl e)
                      | Some (Inr subs) \<Rightarrow>
                          Some (add_sub_parts E S Ov (separators ! separator_index) subs st)))
           (py_split current_text (separators ! separator_index)) (Some (Inr init_state)) = Some r"
        by blast
      then have "recursive_split E S Ov current_text separator_index
                   = (case r of Inl e \<Rightarrow> Some (Inl e)
                      | Inr st \<Rightarrow> Some (Inr (seal (separators ! separator_index) st)))"
        by (simp only: eq Inr sum.case False if_False option.case)
      then show ?thesis by (cases r) simp_all
    qed
  qed
qed

lemma py_rstrip_prefix: "prefix (py_rstrip l) l"
proof -
  have "suffix (dropWhile is_space (rev l)) (rev l)" by (rule suffix_dropWhile)
  then show ?thesis by (simp add: py_rstrip_def suffix_to_prefix)
qed

lemma py_rstrip_append: "prefix (py_rstrip l) (py_rstrip (l @ c))"
proof (cases "\<forall>x \<in> set c. is_space x")
  case True
  then have "dropWhile is_space (rev c @ rev l) = dropWhile is_space (rev l)"
    by (intro dropWhile_append2) simp
  then show ?thesis by (simp add: py_rstrip_def)
next
  case False
  then obtain x where "x \<in> set (rev c)" and "\<not> is_space x" by auto
  then have "dropWhile is_space (rev c @ rev l) = dropWhile is_space (rev c) @ rev l"
    by (rule dropWhile_append1)
  then have "py_rstrip (l @ c) = l @ rev (dropWhile is_space (rev c))"
    by (simp add: py_rstrip_def)
  with py_rstrip_prefix [of l] show ?thesis
    by (metis prefix_order.order_trans prefixI)
qed

lemma py_strip_append: "prefix (py_strip a) (py_strip (a @ c))"
proof (cases "\<forall>x \<in> set a. is_space x")
  case True
  then have "py_strip a = []"
    by (auto simp: py_strip_def py_lstrip_def py_rstrip_def dest: set_dropWhileD)
  then show ?thesis by simp
next
  case False
  then obtain x where "x \<in> set a" and "\<not> is_space x" by auto
  then have "dropWhile is_space (a @ c) = dropWhile is_space a @ c"
    by (rule dropWhile_append1)
  then show ?thesis
    using py_rstrip_append [of "dropWhile is_space a" c]
    by (simp add: py_strip_def py_lstrip_def)
qed

lemma py_join_hd: "parts \<noteq> [] \<Longrightarrow> prefix (hd parts) (py_join sep parts)"
  by (induction sep parts rule: py_join.induct) simp_all

lemma overlap_start: "0 \<le> Ov \<Longrightarrow> nat (max 0 (int n - Ov)) = n - nat Ov"
  by (simp add: max_def) linarith

lemma overlap_text_Inr:
  assumes "0 < Ov" and "overlap_text E Ov c = Inr t"
  shows "\<exists>tokens. get_tokens E c = Inr tokens
           \<and> t = decode E (drop (length tokens - nat Ov) tokens)"
proof (cases "get_tokens E c")
  case (Inl e)
  with assms(2) show ?thesis by (simp add: overlap_text_def)
next
  case (Inr tokens)
  with assms show ?thesis
    by (auto simp: overlap_text_def Let_def overlap_start)
qed

lemma sealed_overlap_ok:
  assumes "0 < Ov" and "parts \<noteq> []" and "overlap_text E Ov c = Inr (hd parts)"
  shows "overlap_ok E Ov c (py_strip (py_join sep parts))"
proof -
  from overlap_text_Inr [OF assms(1,3)] obtain tokens
    where t: "get_tokens E c = Inr tokens"
      and h: "hd parts = decode E (drop (length tokens - nat Ov) tokens)"
    by blast
  from py_join_hd [OF assms(2), of sep] obtain rest where "py_join sep parts = hd parts @ rest"
    by (auto simp: prefix_def)
  with py_strip_append [of "hd parts" rest] h
  have "prefix (py_strip (decode E (drop (length tokens - nat Ov) tokens)))
          (py_strip (py_join sep parts))"
    by simp
  with t show ?thesis by (simp add: overlap_ok_def)
qed

lemma seal_inv:
  assumes "0 < Ov" and "split_inv E Ov st"
  shows "successively (overlap_ok E Ov) (seal sep st)"
proof (cases "current_chunk_parts st = []")
  case True
  with assms(2) show ?thesis by (simp add: seal_def split_inv_def)
next
  case False
  with assms(2) sealed_overlap_ok [OF assms(1), of "current_chunk_parts st" E "last (temp_chunks st)" sep]
  show ?thesis
    by (auto simp: seal_def split_inv_def successively_append_iff)
qed

lemma start_new_chunk_inv:
  assumes "0 < Ov" and "successively (overlap_ok E Ov) temp"
    and "start_new_chunk E Ov temp = Inr st1"
  shows "split_inv E Ov (st1\<lparr>current_chunk_parts := current_chunk_parts st1 @ [sub_part],
                              current_chunk_token_count := n\<rparr>)"
proof (cases "temp = []")
  case True
  with assms(3) show ?thesis by (auto simp: start_new_chunk_def split_inv_def)
next
  case False
  with assms(1,3) obtain overlap k
    where o: "overlap_text E Ov (last temp) = Inr overlap"
      and st1: "st1 = \<lparr>temp_chunks = temp, current_chunk_parts = [overlap],
                       current_chunk_token_count = k\<rparr>"
    by (auto simp: start_new_chunk_def split: sum.splits)
  with assms(2) False show ?thesis by (simp add: split_inv_def)
qed

lemma add_sub_part_inv:
  assumes "0 < Ov" and "split_inv E Ov st"
    and "add_sub_part E S Ov sep sub_part st = Inr st'"
  shows "split_inv E Ov st'"
proof -
  from assms(3) obtain k sep_len st1
    where st1: "(if current_chunk_token_count st + k + sep_len > S
                 then start_new_chunk E Ov (seal sep st) else Inr st) = Inr st1"
      and st': "st' = st1\<lparr>current_chunk_parts := current_chunk_parts st1 @ [sub_part],
                           current_chunk_token_count := current_chunk_token_count st1 + k\<rparr>"
    by (auto simp: add_sub_part_def split: sum.splits)
  show ?thesis
  proof (cases "current_chunk_token_count st + k + sep_len > S")
    case True
    with st1 have "start_new_chunk E Ov (seal sep st) = Inr st1" by simp
    from start_new_chunk_inv [OF assms(1) seal_inv [OF assms(1,2)] this]
    show ?thesis unfolding st' .
  next
    case False
    with st1 have "st1 = st" by simp
    with assms(2) show ?thesis unfolding st' by (auto simp: split_inv_def)
  qed
qed

lemma add_sub_parts_inv:
  "0 < Ov \<Longrightarrow> split_inv E Ov st \<Longrightarrow> add_sub_parts E S Ov sep subs st = Inr st' \<Longrightarrow>
     split_inv E Ov st'"
proof (induction subs arbitrary: st)
  case Nil
  then show ?case by simp
next
  case (Cons sub_part subs)
  from Cons.prems(3) obtain st1
    where a: "add_sub_part E S Ov sep sub_part st = Inr st1"
      and r: "add_sub_parts E S Ov sep subs st1 = Inr st'"
    by (auto split: sum.splits)
  from add_sub_part_inv [OF Cons.prems(1,2) a] have "split_inv E Ov st1" .
  from Cons.IH [OF Cons.prems(1) this r] show ?case .
qed

lemma recursive_split_linked:
  assumes "0 < Ov" and "separator_index < length separators"
    and "recursive_split E S Ov current_text separator_index = Some (Inr chunks)"
  shows "successively (overlap_ok E Ov) chunks"
proof -
  note eq = recursive_split.simps [of E S Ov current_text separator_index]
  from assms(3) obtain tokens where tk: "get_tokens E current_text = Inr tokens"
    by (cases "get_tokens E current_text") (simp_all add: eq)
  show ?thesis
  proof (cases "int (length tokens) \<le> S")
    case True
    with assms(3) have "chunks = [current_text]" by (simp add: eq tk)
    then show ?thesis by simp
  next
    case False
    let ?F = "\<lambda>part acc. case acc of None \<Rightarrow> None | Some (Inl e) \<Rightarrow> Some (Inl e)
                 | Some (Inr st) \<Rightarrow>
                     (case recursive_split E S Ov part (separator_index + 1) of
                        None \<Rightarrow> None | Some (Inl e) \<Rightarrow> Some (Inl e)
                      | Some (Inr subs) \<Rightarrow>
                          Some (add_sub_parts E S Ov (separators ! separator_index) subs st))"
    let ?parts = "py_split current_text (separators ! separator_index)"
    from False assms(2)
    have nb: "\<not> (int (length tokens) \<le> S \<or> length separators \<le> separator_index)"
      by simp
    from assms(3)
    have e: "(case fold ?F ?parts (Some (Inr init_state)) of None \<Rightarrow> None
               | Some (Inl e) \<Rightarrow> Some (Inl e)
               | Some (Inr st) \<Rightarrow> Some (Inr (seal (separators ! separator_index) st)))
             = Some (Inr chunks)"
      by (simp only: eq tk sum.case nb if_False)
    then obtain st where f: "fold ?F ?parts (Some (Inr init_state)) = Some (Inr st)"
      and c: "seal (separators ! separator_index) st = chunks"
      by (cases "fold ?F ?parts (Some (Inr init_state))";
          simp only: option.case option.distinct option.inject sum.case sum.inject sum.distinct
               split: sum.splits)
    have "split_inv E Ov init_state" by (simp add: split_inv_def init_state_def)
    from fold_parts_inv [of "split_inv E Ov", OF this _ f] add_sub_parts_inv [OF assms(1)]
    have "split_inv E Ov st" by blast
    from seal_inv [OF assms(1) this, of "separators ! separator_index"] c
    show ?thesis by simp
  qed
qed

text \<open>
  Runs of the chunker on the small tokenizer: one that returns, and one that raises
  because the text holds a special token.
\<close>

lemma demo_split_3_1:
  "split_text_into_chunks demo_encoding ''a b\<newline>\<newline>c d\<newline>\<newline>e f'' 3 1
     = Some (Inr [''a b'', ''b\<newline>\<newline>c d'', ''d\<newline>\<newline>e f''])"
  by code_simp

lemma demo_tokens_a_b: "get_tokens demo_encoding ''a b'' = Inr [''a'', '' b'']"
  by code_simp

lemma demo_split_raises:
  "split_text_into_chunks demo_encoding ''a b <|endoftext|> c d'' 3 1
     = Some (Inl (Error ''ValueError''))"
  by code_simp

lemma demo_recursive_split_words:
  "recursive_split demo_encoding 2 1 ''a b c'' 2 = Some (Inr [''a'', ''a b'', ''b c''])"
  by code_simp

text \<open>
  Claim C4, as stated, fails: a sealed chunk and the chunk seeded from it are both
  stripped of their outer whitespace, while the decoded tail of the sealed chunk may
  start with a space. With chunk size 3 and overlap 1, the last token of the first chunk
  \<^verbatim>\<open>a b\<close> decodes to a space followed by \<^verbatim>\<open>b\<close>, and the second chunk starts
  with \<^verbatim>\<open>b\<close>.
\<close>

theorem overlap_text_not_a_prefix:
  "split_text_into_chunks demo_encoding ''a b\<newline>\<newline>c d\<newline>\<newline>e f'' 3 1
     = Some (Inr [''a b'', ''b\<newline>\<newline>c d'', ''d\<newline>\<newline>e f''])
   \<and> get_tokens demo_encoding ''a b'' = Inr [''a'', '' b'']
   \<and> decode demo_encoding (drop (length [''a'', '' b''] - nat 1) [''a'', '' b'']) = '' b''
   \<and> \<not> prefix '' b'' ''b\<newline>\<newline>c d''"
proof -
  have "decode demo_encoding ['' b''] = '' b''" by (simp add: demo_encoding_def)
  then show ?thesis by (simp add: demo_split_3_1 demo_tokens_a_b)
qed

text \<open>
  Claim C4, amended. For every pair of adjacent chunks \<open>c[i]\<close>, \<open>c[i+1]\<close> produced by
  the same recursive split in \<^verbatim>\<open>split_text_into_chunks\<close> with overlap \<open>O > 0\<close>, the
  last \<open>O\<close> tokens of \<open>c[i]\<close>, decoded back to text and stripped of leading and
  trailing whitespace, form a prefix of \<open>c[i+1]\<close>. This is stated of the chunks that
  \<^verbatim>\<open>split_text_into_chunks\<close> returns, and of the chunks returned by any recursive
  split that reassembles at a separator.
\<close>

theorem overlap_continuity_stripped:
  assumes "0 < Ov"
  shows "(split_text_into_chunks E text S Ov = Some (Inr chunks) \<longrightarrow> Suc i < length chunks \<longrightarrow>
            (\<exists>tokens. get_tokens E (chunks ! i) = Inr tokens
               \<and> prefix (py_strip (decode E (drop (length tokens - nat Ov) tokens)))
                    (chunks ! Suc i)))
       \<and> (separator_index < length separators \<longrightarrow>
            recursive_split E S Ov text separator_index = Some (Inr chunks) \<longrightarrow>
            Suc i < length chunks \<longrightarrow>
            (\<exists>tokens. get_tokens E (chunks ! i) = Inr tokens
               \<and> prefix (py_strip (decode E (drop (length tokens - nat Ov) tokens)))
                    (chunks ! Suc i)))"
proof -
  have linked: "\<exists>tokens. get_tokens E (chunks ! i) = Inr tokens
               \<and> prefix (py_strip (decode E (drop (length tokens - nat Ov) tokens)))
                    (chunks ! Suc i)"
    if "separator_index < length separators"
      and "recursive_split E S Ov text separator_index = Some (Inr chunks)"
      and "Suc i < length chunks" for separator_index
  proof -
    from recursive_split_linked [OF assms that(1,2)]
    have "successively (overlap_ok E Ov) chunks" .
    from successively_nth [OF this that(3)]
    show ?thesis by (auto simp: overlap_ok_def split: sum.splits)
  qed
  have "0 < length separators" by (simp add: separators_def)
  from linked [OF this] linked show ?thesis
    by (simp add: split_text_into_chunks_def)
qed

theorem overlap_continuity_stripped_witness:
  "(0::int) < 1
   \<and> split_text_into_chunks demo_encoding ''a b\<newline>\<newline>c d\<newline>\<newline>e f'' 3 1
       = Some (Inr [''a b'', ''b\<newline>\<newline>c d'', ''d\<newline>\<newline>e f''])
   \<and> prefix (py_strip (decode demo_encoding (drop (length [''a'', '' b''] - nat 1) [''a'', '' b''])))
        ''b\<newline>\<newline>c d''
   \<and> (2::nat) < length separators
   \<and> recursive_split demo_encoding 2 1 ''a b c'' 2 = Some (Inr [''a'', ''a b'', ''b c''])
   \<and> prefix (py_strip (decode demo_encoding (drop (length [''a'', '' b''] - nat 1) [''a'', '' b''])))
        ''b c''"
proof -
  have pos: "(0::int) < 1" by simp
  have sep: "(2::nat) < length separators" by (simp add: separators_def)
  from overlap_continuity_stripped [OF pos, of demo_encoding
      "''a b\<newline>\<newline>c d\<newline>\<newline>e f''" 3
      "[''a b'', ''b\<newline>\<newline>c d'', ''d\<newline>\<newline>e f'']" 0 0]
  have "\<exists>tokens. get_tokens demo_encoding ''a b'' = Inr tokens
          \<and> prefix (py_strip (decode demo_encoding (drop (length tokens - nat 1) tokens)))
               ''b\<newline>\<newline>c d''"
    by (simp add: demo_split_3_1)
  then have a: "prefix (py_strip (decode demo_encoding (drop (length [''a'', '' b''] - nat 1) [''a'', '' b''])))
        ''b\<newline>\<newline>c d''"
    by (auto simp: demo_tokens_a_b)
  from overlap_continuity_stripped [OF pos, of demo_encoding "''a b c''" 2
      "[''a'', ''a b'', ''b c'']" 1 2]
  have "\<exists>tokens. get_tokens demo_encoding ''a b'' = Inr tokens
          \<and> prefix (py_strip (decode demo_encoding (drop (length tokens - nat 1) tokens)))
               ''b c''"
    by (simp add: demo_recursive_split_words sep split_text_into_chunks_def)
  then have b: "prefix (py_strip (decode demo_encoding (drop (length [''a'', '' b''] - nat 1) [''a'', '' b''])))
        ''b c''"
    by (auto simp: demo_tokens_a_b)
  from pos demo_split_3_1 a sep demo_recursive_split_words b show ?thesis by (intro conjI)
qed

text \<open>
  Claim C5, as stated, fails: the empty string has no more tokens than the chunk size,
  so the chunker returns it as its only chunk.
\<close>

theorem empty_document_gives_one_chunk:
  "split_text_into_chunks demo_encoding [] 500 50 = Some (Inr [[]])
   \<and> split_text_into_chunks demo_encoding [] 500 50 \<noteq> Some (Inr [])"
proof -
  have "split_text_into_chunks demo_encoding [] 500 50 = Some (Inr [[]])" by code_simp
  then show ?thesis by simp
qed

text \<open>
  Claim C5, amended. For every chunk size \<open>S\<close> and overlap \<open>O\<close> with \<open>0 \<le> O < S\<close>,
  and a tokenizer that gives the empty string no tokens, the chunker applied to the
  empty string yields exactly one chunk, the empty string.
\<close>

theorem empty_document_single_empty_chunk:
  assumes "0 \<le> Ov" and "Ov < S" and "get_tokens E [] = Inr []"
  shows "split_text_into_chunks E [] S Ov = Some (Inr [[]])"
  using assms by (simp add: split_text_into_chunks_def recursive_split.simps [of E S Ov "[]" 0])

theorem empty_document_single_empty_chunk_witness:
  "(0::int) \<le> 50 \<and> (50::int) < 500 \<and> get_tokens demo_encoding [] = Inr []
   \<and> split_text_into_chunks demo_encoding [] 500 50 = Some (Inr [[]])"
proof -
  have g: "get_tokens demo_encoding [] = Inr []" by code_simp
  from empty_document_single_empty_chunk [of 50 500 demo_encoding, OF _ _ g] g
  show ?thesis by simp
qed

text \<open>
  Claim C1 does not hold of the code. The reassembly loop charges the separator's tokens
  when it tests whether the next part fits, but does not add them to its running count:
  with chunk size 4 and no overlap, the three one-token paragraphs below are all
  accepted (the count reaches 3) and joined into one chunk of 5 tokens, which is not a
  single indivisible run.
\<close>

theorem chunk_exceeds_size:
  "split_text_into_chunks demo_encoding ''a\<newline>\<newline>b\<newline>\<newline>c'' 4 0
     = Some (Inr [''a\<newline>\<newline>b\<newline>\<newline>c''])
   \<and> get_tokens demo_encoding ''a\<newline>\<newline>b\<newline>\<newline>c''
     = Inr [''a'', ''\<newline>\<newline>'', ''b'', ''\<newline>\<newline>'', ''c'']
   \<and> length [''a'', ''\<newline>\<newline>'', ''b'', ''\<newline>\<newline>'', ''c''] = 5"
  by code_simp

end
